theory Spec2Isabelle
  imports Complex_Main "HOL-Library.Word"
begin

unbundle bit_operations_syntax

section \<open>Triton primitives\<close>

text \<open>
  A kernel receives raw pointers. A pointer is modelled as the memory it addresses:
  a map from element offsets to values, so that \<open>x_ptr + off\<close> is the address \<open>off\<close>
  of the buffer. A tile is a function from tile coordinates to values; its extents are
  the \<open>constexpr\<close> block sizes, which every operation that walks a tile takes
  explicitly. Offsets are natural numbers (none is negative in these kernels, and none
  is taken to overflow). The float32 values of puzzles 7, 10 and 11 carry the rounding of
  every operation; those of the other kernels are exact reals, extended by the
  infinities where the kernel uses them.
  Names are those of the source; where HOL has the name already a letter is added
  (\<open>msk\<close> for a \<open>mask\<close> argument, \<open>sums_v\<close>, \<open>kernel_t\<close>, \<open>rng\<close>).
\<close>

type_synonym 'a buffer = "nat \<Rightarrow> 'a"

text \<open>The effect of a \<open>tl.store\<close>: the (address, value) pairs it writes, in row-major
  order of the tile. A kernel never reads its output buffer, so the effect of a kernel
  instance is the sequence of its writes, and \<open>commit\<close> performs them in order.\<close>

type_synonym 'a writes = "(nat \<times> 'a) list"

definition commit :: "'a writes \<Rightarrow> 'a buffer \<Rightarrow> 'a buffer" where
  "commit ws z = fold (\<lambda>w m. m(fst w := snd w)) ws z"

text \<open>A tensor laid out contiguously from offset 0; memory past its end holds 0.\<close>

definition ptr_of :: "'a::zero list \<Rightarrow> 'a buffer" where
  "ptr_of xs = (\<lambda>p. if p < length xs then xs ! p else 0)"

text \<open>\<open>triton.cdiv(x, y) = (x + y - 1) // y\<close>.\<close>

definition cdiv :: "nat \<Rightarrow> nat \<Rightarrow> nat" where
  "cdiv a b = (a + b - 1) div b"

text \<open>\<open>tl.arange(lo, hi)\<close>: the tile of extent \<open>hi - lo\<close> holding \<open>lo, lo + 1, ...\<close>. These
  are the values of a call that returns; the checks the call makes on its arguments are
  those of \<open>tl_arange\<close> below.\<close>

definition arange :: "nat \<Rightarrow> nat \<Rightarrow> nat \<Rightarrow> nat" where
  "arange lo hi = (\<lambda>t. lo + t)"

text \<open>\<open>tl.range(start, stop, step)\<close>: the loop's values, \<open>step > 0\<close>.\<close>

definition trange :: "nat \<Rightarrow> nat \<Rightarrow> nat \<Rightarrow> nat list" where
  "trange start stop step = map (\<lambda>c. start + c * step) [0..<cdiv (stop - start) step]"

text \<open>\<open>tl.load(ptr + idx, mask, other)\<close> for tiles of one, two and three axes. The
  interpreter fills a masked-out position with \<open>other\<close>, and with 0 when no \<open>other\<close>
  is given; an absent mask is the mask that is true everywhere.\<close>

definition load1 :: "'a buffer \<Rightarrow> (nat \<Rightarrow> nat) \<Rightarrow> (nat \<Rightarrow> bool) \<Rightarrow> 'a \<Rightarrow> nat \<Rightarrow> 'a" where
  "load1 ptr idx msk other = (\<lambda>a. if msk a then ptr (idx a) else other)"

definition load2 :: "'a buffer \<Rightarrow> (nat \<Rightarrow> nat \<Rightarrow> nat) \<Rightarrow> (nat \<Rightarrow> nat \<Rightarrow> bool) \<Rightarrow> 'a
    \<Rightarrow> nat \<Rightarrow> nat \<Rightarrow> 'a" where
  "load2 ptr idx msk other = (\<lambda>a b. if msk a b then ptr (idx a b) else other)"

definition load3 :: "'a buffer \<Rightarrow> (nat \<Rightarrow> nat \<Rightarrow> nat \<Rightarrow> nat) \<Rightarrow> (nat \<Rightarrow> nat \<Rightarrow> nat \<Rightarrow> bool) \<Rightarrow> 'a
    \<Rightarrow> nat \<Rightarrow> nat \<Rightarrow> nat \<Rightarrow> 'a" where
  "load3 ptr idx msk other = (\<lambda>a b c. if msk a b c then ptr (idx a b c) else other)"

definition no_mask1 :: "nat \<Rightarrow> bool" where
  "no_mask1 = (\<lambda>a. True)"

text \<open>\<open>tl.store(ptr + idx, vals, mask)\<close> over a tile of extent \<open>B\<close>
  (\<open>B0 \<times> B1\<close>, \<open>B0 \<times> B1 \<times> B2\<close>): one write per position whose mask is true.\<close>

definition store1 :: "nat \<Rightarrow> (nat \<Rightarrow> nat) \<Rightarrow> (nat \<Rightarrow> 'a) \<Rightarrow> (nat \<Rightarrow> bool) \<Rightarrow> 'a writes" where
  "store1 B idx vals msk = map (\<lambda>a. (idx a, vals a)) (filter msk [0..<B])"

definition store2 :: "nat \<Rightarrow> nat \<Rightarrow> (nat \<Rightarrow> nat \<Rightarrow> nat) \<Rightarrow> (nat \<Rightarrow> nat \<Rightarrow> 'a)
    \<Rightarrow> (nat \<Rightarrow> nat \<Rightarrow> bool) \<Rightarrow> 'a writes" where
  "store2 B0 B1 idx vals msk =
     concat (map (\<lambda>a. store1 B1 (idx a) (vals a) (msk a)) [0..<B0])"

definition store3 :: "nat \<Rightarrow> nat \<Rightarrow> nat \<Rightarrow> (nat \<Rightarrow> nat \<Rightarrow> nat \<Rightarrow> nat) \<Rightarrow> (nat \<Rightarrow> nat \<Rightarrow> nat \<Rightarrow> 'a)
    \<Rightarrow> (nat \<Rightarrow> nat \<Rightarrow> nat \<Rightarrow> bool) \<Rightarrow> 'a writes" where
  "store3 B0 B1 B2 idx vals msk =
     concat (map (\<lambda>a. store2 B1 B2 (idx a) (vals a) (msk a)) [0..<B0])"

section \<open>The grid of program instances\<close>

text \<open>Modelled from the spec: the launcher (\<open>test\<close> of \<open>test_puzzle\<close>, which is not
  among the sources). It declares \<open>ceil(axis_size / block_size)\<close> instances per axis,
  at most three axes, and invokes the kernel body once per instance id combination,
  row-major over the axes.\<close>

definition grid :: "nat \<Rightarrow> nat \<Rightarrow> nat \<Rightarrow> (nat \<times> nat \<times> nat) list" where
  "grid g0 g1 g2 =
     concat (map (\<lambda>i. concat (map (\<lambda>j. map (\<lambda>k. (i, j, k)) [0..<g2]) [0..<g1])) [0..<g0])"

definition launch :: "(nat \<times> nat \<times> nat \<Rightarrow> 'a writes) \<Rightarrow> nat \<Rightarrow> nat \<Rightarrow> nat \<Rightarrow> 'a writes" where
  "launch body g0 g1 g2 = concat (map body (grid g0 g1 g2))"

text \<open>\<open>tl.program_id(axis)\<close>.\<close>

definition program_id :: "nat \<times> nat \<times> nat \<Rightarrow> nat \<Rightarrow> nat" where
  "program_id pid axis =
     (if axis = 0 then fst pid else if axis = 1 then fst (snd pid) else snd (snd pid))"

section \<open>Demo 3 and puzzles 1 and 2\<close>

text \<open>\<open>demo3\<close>: store 10 at the first five of eight positions.\<close>

definition demo3 :: "real writes" where
  "demo3 =
     (let rng = arange 0 8
      in store1 8 rng (\<lambda>a. 10) (\<lambda>a. rng a < 5))"

definition add_spec :: "real list \<Rightarrow> real list" where
  "add_spec x = map (\<lambda>v. v + 10.0) x"

definition add_kernel :: "real buffer \<Rightarrow> nat \<Rightarrow> nat \<Rightarrow> nat \<times> nat \<times> nat \<Rightarrow> real writes" where
  "add_kernel x_ptr N0 B0 pid =
     (let off_x = arange 0 B0;
          x = load1 x_ptr off_x no_mask1 0;
          x = (\<lambda>a. x a + 10.0)
      in store1 B0 off_x x no_mask1)"

definition add_mask2_kernel :: "real buffer \<Rightarrow> nat \<Rightarrow> nat \<Rightarrow> nat \<times> nat \<times> nat \<Rightarrow> real writes" where
  "add_mask2_kernel x_ptr N0 B0 pid =
     (let block_id = program_id pid 0;
          idx = (\<lambda>a. block_id * B0 + arange 0 B0 a);
          msk = (\<lambda>a. idx a < N0);
          x = load1 x_ptr idx msk 0;
          x = (\<lambda>a. x a + 10.0)
      in store1 B0 idx x msk)"

section \<open>Tile algebra\<close>

text \<open>\<open>v.expand_dims(1).broadcast_to(B0, B1)\<close> repeats a vector along a new second
  axis, \<open>v.expand_dims(0).broadcast_to(B0, B1)\<close> along a new first axis.\<close>

definition expand_dims_1 :: "(nat \<Rightarrow> 'a) \<Rightarrow> nat \<Rightarrow> nat \<Rightarrow> 'a" where
  "expand_dims_1 v = (\<lambda>a b. v a)"

definition expand_dims_0 :: "(nat \<Rightarrow> 'a) \<Rightarrow> nat \<Rightarrow> nat \<Rightarrow> 'a" where
  "expand_dims_0 v = (\<lambda>a b. v b)"

text \<open>\<open>v.expand_dims([1, 2])\<close>, \<open>v.expand_dims([0, 2])\<close> and \<open>v.expand_dims([0, 1])\<close>,
  each broadcast to a tile of three axes.\<close>

definition expand_dims_12 :: "(nat \<Rightarrow> 'a) \<Rightarrow> nat \<Rightarrow> nat \<Rightarrow> nat \<Rightarrow> 'a" where
  "expand_dims_12 v = (\<lambda>a b c. v a)"

definition expand_dims_02 :: "(nat \<Rightarrow> 'a) \<Rightarrow> nat \<Rightarrow> nat \<Rightarrow> nat \<Rightarrow> 'a" where
  "expand_dims_02 v = (\<lambda>a b c. v b)"

definition expand_dims_01 :: "(nat \<Rightarrow> 'a) \<Rightarrow> nat \<Rightarrow> nat \<Rightarrow> nat \<Rightarrow> 'a" where
  "expand_dims_01 v = (\<lambda>a b c. v c)"

section \<open>The closeness test\<close>

text \<open>Modelled from the spec: the closeness test of the harness (\<open>test_puzzle\<close> is not
  among the sources), \<open>|a - b| \<le> atol + rtol * |b|\<close> with \<open>atol = 1e-4\<close> and
  \<open>rtol = 1e-3\<close>.\<close>

definition atol :: real where
  "atol = 1 / 10000"

definition rtol :: real where
  "rtol = 1 / 1000"

definition allclose :: "real \<Rightarrow> real \<Rightarrow> bool" where
  "allclose a b = (\<bar>a - b\<bar> \<le> atol + rtol * \<bar>b\<bar>)"

section \<open>Floating-point values with infinities\<close>

text \<open>The softmax and attention kernels start their running maximum at \<open>-inf\<close>, so
  their values are reals extended by the two infinities and NaN, with the arithmetic
  of IEEE 754 on them (rounding and signed zeros are not modelled: a zero is \<open>+0\<close>).\<close>

datatype fval = NaN | MInf | Fin real | PInf

fun fneg :: "fval \<Rightarrow> fval" where
  "fneg NaN = NaN"
| "fneg MInf = PInf"
| "fneg (Fin a) = Fin (- a)"
| "fneg PInf = MInf"

fun fadd :: "fval \<Rightarrow> fval \<Rightarrow> fval" where
  "fadd (Fin a) (Fin b) = Fin (a + b)"
| "fadd NaN y = NaN"
| "fadd x NaN = NaN"
| "fadd MInf PInf = NaN"
| "fadd PInf MInf = NaN"
| "fadd MInf y = MInf"
| "fadd PInf y = PInf"
| "fadd (Fin a) y = y"

definition fsub :: "fval \<Rightarrow> fval \<Rightarrow> fval" where
  "fsub x y = fadd x (fneg y)"

fun fmul :: "fval \<Rightarrow> fval \<Rightarrow> fval" where
  "fmul (Fin a) (Fin b) = Fin (a * b)"
| "fmul NaN y = NaN"
| "fmul x NaN = NaN"
| "fmul (Fin a) y = (if a = 0 then NaN else if 0 < a then y else fneg y)"
| "fmul x (Fin b) = (if b = 0 then NaN else if 0 < b then x else fneg x)"
| "fmul MInf MInf = PInf"
| "fmul MInf PInf = MInf"
| "fmul PInf MInf = MInf"
| "fmul PInf PInf = PInf"

fun fdiv :: "fval \<Rightarrow> fval \<Rightarrow> fval" where
  "fdiv (Fin a) (Fin b) =
     (if b = 0 then (if a = 0 then NaN else if 0 < a then PInf else MInf) else Fin (a / b))"
| "fdiv NaN y = NaN"
| "fdiv x NaN = NaN"
| "fdiv (Fin a) y = Fin 0"
| "fdiv x (Fin b) = (if 0 \<le> b then x else fneg x)"
| "fdiv x y = NaN"

text \<open>\<open>tl.exp2\<close>.\<close>

fun fexp2 :: "fval \<Rightarrow> fval" where
  "fexp2 NaN = NaN"
| "fexp2 MInf = Fin 0"
| "fexp2 (Fin a) = Fin (2 powr a)"
| "fexp2 PInf = PInf"

text \<open>\<open>tl.maximum\<close>, which returns the other operand when one is NaN.\<close>

fun fmaximum :: "fval \<Rightarrow> fval \<Rightarrow> fval" where
  "fmaximum (Fin a) (Fin b) = Fin (max a b)"
| "fmaximum NaN y = y"
| "fmaximum x NaN = x"
| "fmaximum PInf y = PInf"
| "fmaximum x PInf = PInf"
| "fmaximum MInf y = y"
| "fmaximum x MInf = x"

text \<open>\<open>t.sum(1)\<close> and \<open>t.max(1)\<close> of a tile of extent \<open>B0 \<times> B1\<close>.\<close>

definition fsum_axis1 :: "nat \<Rightarrow> (nat \<Rightarrow> nat \<Rightarrow> fval) \<Rightarrow> nat \<Rightarrow> fval" where
  "fsum_axis1 B1 t = (\<lambda>a. fold (\<lambda>v acc. fadd acc v) (map (t a) [0..<B1]) (Fin 0))"

definition fmax_axis1 :: "nat \<Rightarrow> (nat \<Rightarrow> nat \<Rightarrow> fval) \<Rightarrow> nat \<Rightarrow> fval" where
  "fmax_axis1 B1 t = (\<lambda>a. fold (\<lambda>v acc. fmaximum acc v) (map (t a) [0..<B1]) MInf)"

text \<open>A tensor of finite values laid out from offset 0.\<close>

definition fptr_of :: "real list \<Rightarrow> fval buffer" where
  "fptr_of xs = (\<lambda>p. if p < length xs then Fin (xs ! p) else Fin 0)"

section \<open>Puzzle 8: long softmax\<close>

text \<open>\<open>softmax_spec\<close>, one row at a time: \<open>x.max(1)\<close>, \<open>x - x_max\<close>, \<open>x.exp()\<close> and the
  division by \<open>x_exp.sum(1)\<close>.\<close>

definition softmax_row :: "real list \<Rightarrow> real list" where
  "softmax_row x =
     (let x_max = Max (set x);
          x = map (\<lambda>v. v - x_max) x;
          x_exp = map exp x
      in map (\<lambda>e. e / sum_list x_exp) x_exp)"

definition softmax_spec :: "real list list \<Rightarrow> real list list" where
  "softmax_spec x = map softmax_row x"

definition log2_e :: fval where
  "log2_e = Fin 1.44269504"

definition softmax_kernel :: "fval buffer \<Rightarrow> nat \<Rightarrow> nat \<Rightarrow> nat \<Rightarrow> nat \<Rightarrow> nat
    \<Rightarrow> nat \<times> nat \<times> nat \<Rightarrow> fval writes" where
  "softmax_kernel x_ptr N0 N1 T B0 B1 pid =
     (let block_id_i = program_id pid 0;
          idx_i = (\<lambda>a. block_id_i * B0 + arange 0 B0 a);
          mask_i = (\<lambda>a. idx_i a < N0);
          global_maxs = (\<lambda>a. MInf);
          sums_v = (\<lambda>a. Fin 0);
          (global_maxs, sums_v) = fold (\<lambda>idx_j_start (global_maxs, sums_v).
            (let idx_j = (\<lambda>b. idx_j_start + arange 0 B1 b);
                 mask_j = (\<lambda>b. idx_j b < T);
                 idx_ij = (\<lambda>a b. expand_dims_1 idx_i a b * T + expand_dims_0 idx_j a b);
                 mask_ij = (\<lambda>a b. expand_dims_1 mask_i a b \<and> expand_dims_0 mask_j a b);
                 vals = load2 x_ptr idx_ij mask_ij (Fin 0);
                 last_maxs = global_maxs;
                 global_maxs = (\<lambda>a. fmaximum (global_maxs a) (fmax_axis1 B1 vals a));
                 factory = (\<lambda>a. fexp2 (fmul log2_e (fsub (last_maxs a) (global_maxs a))));
                 local_sum = fsum_axis1 B1
                   (\<lambda>a b. fexp2 (fmul log2_e (fsub (vals a b) (expand_dims_1 global_maxs a b))));
                 sums_v = (\<lambda>a. fadd (fmul (sums_v a) (factory a)) (local_sum a))
             in (global_maxs, sums_v))) (trange 0 T B1) (global_maxs, sums_v)
      in concat (map (\<lambda>idx_j_start.
           (let idx_j = (\<lambda>b. idx_j_start + arange 0 B1 b);
                mask_j = (\<lambda>b. idx_j b < T);
                idx_ij = (\<lambda>a b. expand_dims_1 idx_i a b * T + expand_dims_0 idx_j a b);
                mask_ij = (\<lambda>a b. expand_dims_1 mask_i a b \<and> expand_dims_0 mask_j a b);
                vals = load2 x_ptr idx_ij mask_ij (Fin 0);
                softmaxs = (\<lambda>a b. fdiv
                   (fexp2 (fmul log2_e (fsub (vals a b) (expand_dims_1 global_maxs a b))))
                   (expand_dims_1 sums_v a b))
            in store2 B0 B1 idx_ij softmaxs mask_ij)) (trange 0 T B1)))"

section \<open>Puzzle 9: simple FlashAttention\<close>

text \<open>\<open>flashatt_spec\<close> for \<open>q\<close>, \<open>k\<close> and \<open>v\<close> of one length: the rows of
  \<open>q[:, None] * k[None, :]\<close>, their softmax, and \<open>(v[None, :] * soft).sum(1)\<close>.\<close>

definition flashatt_spec :: "real list \<Rightarrow> real list \<Rightarrow> real list \<Rightarrow> real list" where
  "flashatt_spec q k v =
     (let x = map (\<lambda>qi. map (\<lambda>kj. qi * kj) k) q;
          soft = map softmax_row x
      in map (\<lambda>row. sum_list (map2 (\<lambda>vj s. vj * s) v row)) soft)"

text \<open>The score tile of one chunk: the loads of \<open>q\<close> and \<open>k\<close> and their product \<open>qk\<close>.\<close>

definition flashatt_qk :: "fval buffer \<Rightarrow> fval buffer \<Rightarrow> nat \<Rightarrow> nat \<Rightarrow> nat
    \<Rightarrow> (nat \<Rightarrow> nat) \<Rightarrow> (nat \<Rightarrow> nat) \<Rightarrow> nat \<Rightarrow> nat \<Rightarrow> fval" where
  "flashatt_qk q_ptr k_ptr N0 T B1 idx_i idx_j =
     (let mask_i = (\<lambda>a. idx_i a < N0);
          mask_j = (\<lambda>b. idx_j b < T);
          q = expand_dims_1 (load1 q_ptr idx_i mask_i (Fin 0));
          k = expand_dims_0 (load1 k_ptr idx_j mask_j (Fin 0))
      in (\<lambda>a b. fmul (q a b) (k a b)))"

definition flashatt_kernel :: "fval buffer \<Rightarrow> fval buffer \<Rightarrow> fval buffer \<Rightarrow> nat \<Rightarrow> nat \<Rightarrow> nat
    \<Rightarrow> nat \<Rightarrow> nat \<times> nat \<times> nat \<Rightarrow> fval writes" where
  "flashatt_kernel q_ptr k_ptr v_ptr N0 T B0 B1 pid =
     (let block_id_i = program_id pid 0;
          idx_i = (\<lambda>a. block_id_i * B0 + arange 0 B0 a);
          mask_i = (\<lambda>a. idx_i a < N0);
          global_maxs = (\<lambda>a. MInf);
          sums_v = (\<lambda>a. Fin 0);
          result = (\<lambda>a. Fin 0);
          (global_maxs, sums_v, result) = fold (\<lambda>idx_j_start (global_maxs, sums_v, result).
            (let idx_j = (\<lambda>b. idx_j_start + arange 0 B1 b);
                 mask_j = (\<lambda>b. idx_j b < T);
                 qk = flashatt_qk q_ptr k_ptr N0 T B1 idx_i idx_j;
                 last_maxs = global_maxs;
                 global_maxs = (\<lambda>a. fmaximum (global_maxs a) (fmax_axis1 B1 qk a));
                 factory = (\<lambda>a. fexp2 (fmul log2_e (fsub (last_maxs a) (global_maxs a))));
                 global_maxs_expand = expand_dims_1 global_maxs;
                 qk_exp = (\<lambda>a b. fexp2 (fmul log2_e (fsub (qk a b) (global_maxs_expand a b))));
                 local_sum = fsum_axis1 B1 qk_exp;
                 sums_v = (\<lambda>a. fadd (fmul (sums_v a) (factory a)) (local_sum a));
                 v = expand_dims_0 (load1 v_ptr idx_j mask_j (Fin 0));
                 local_result = fsum_axis1 B1 (\<lambda>a b. fmul (qk_exp a b) (v a b));
                 result = (\<lambda>a. fadd (fmul (result a) (factory a)) (local_result a))
             in (global_maxs, sums_v, result))) (trange 0 T B1) (global_maxs, sums_v, result);
          result = (\<lambda>a. fdiv (result a) (sums_v a))
      in store1 B0 idx_i result mask_i)"

section \<open>Float32 arithmetic\<close>

text \<open>The sum, convolution and matrix product kernels are compared with their references
  for every input, so their arithmetic is that of float32: every operation returns the
  float32 nearest to its exact result, ties to the even significand, with 24 significant
  bits, the exponents of the format (a step of \<open>2^-149\<close> below \<open>2^-126\<close>) and overflow to
  an infinity.\<close>

definition round_even :: "real \<Rightarrow> int" where
  "round_even r =
     (let f = \<lfloor>r\<rfloor>; d = r - of_int f
      in if d < 1 / 2 then f else if 1 / 2 < d then f + 1 else if even f then f else f + 1)"

definition fl32 :: "real \<Rightarrow> fval" where
  "fl32 x =
     (if x = 0 then Fin 0
      else (let e = max \<lfloor>log 2 \<bar>x\<bar>\<rfloor> (- 126);
                u = 2 powr (of_int e - 23);
                r = of_int (round_even (x / u)) * u
            in if 2 ^ 128 \<le> \<bar>r\<bar> then (if 0 < x then PInf else MInf) else Fin r))"

fun f32_round :: "fval \<Rightarrow> fval" where
  "f32_round (Fin a) = fl32 a"
| "f32_round v = v"

text \<open>Float32 \<open>+\<close> and \<open>*\<close>: each rounds its own result (a product is rounded before it
  is added to a sum).\<close>

definition f32_add :: "fval \<Rightarrow> fval \<Rightarrow> fval" where
  "f32_add x y = f32_round (fadd x y)"

definition f32_mul :: "fval \<Rightarrow> fval \<Rightarrow> fval" where
  "f32_mul x y = f32_round (fmul x y)"

text \<open>A library reduction (\<open>tl.sum\<close>, the accumulation inside \<open>tl.dot\<close>, torch's \<open>sum\<close>
  and \<open>@\<close>) adds the elements with float32 additions, in an order and bracketing that is
  the library's own and differs between libraries and lengths. The reduction is therefore
  a parameter \<open>red\<close> of each kernel and reference; \<open>f32_sums xs v\<close> says that \<open>v\<close> is the
  result of adding the elements of \<open>xs\<close> in some order and bracketing, and
  \<open>f32_reduction red\<close> that \<open>red\<close> is such a reduction.\<close>

inductive f32_sums :: "fval list \<Rightarrow> fval \<Rightarrow> bool" where
  empty: "f32_sums [] (Fin 0)"
| single: "f32_sums [x] x"
| split: "f32_sums xs a \<Longrightarrow> f32_sums ys b \<Longrightarrow> f32_sums (xs @ ys) (f32_add a b)"
| swap: "f32_sums (xs @ x # y # ys) a \<Longrightarrow> f32_sums (xs @ y # x # ys) a"

definition f32_reduction :: "(fval list \<Rightarrow> fval) \<Rightarrow> bool" where
  "f32_reduction red = (\<forall>xs. f32_sums xs (red xs))"

text \<open>The reduction that adds from left to right, starting at 0.\<close>

definition f32_sum :: "fval list \<Rightarrow> fval" where
  "f32_sum xs = fold (\<lambda>v acc. f32_add acc v) xs (Fin 0)"

text \<open>\<open>t.sum(1)\<close> of a tile of extent \<open>B0 \<times> B1\<close>, and \<open>t.sum(2)\<close> and \<open>t.sum(1)\<close> of a
  tile of extent \<open>B0 \<times> B1 \<times> B2\<close>, by the reduction \<open>red\<close>.\<close>

definition reduce_axis1 :: "(fval list \<Rightarrow> fval) \<Rightarrow> nat \<Rightarrow> (nat \<Rightarrow> nat \<Rightarrow> fval) \<Rightarrow> nat \<Rightarrow> fval" where
  "reduce_axis1 red B1 t = (\<lambda>a. red (map (t a) [0..<B1]))"

definition reduce3_axis2 :: "(fval list \<Rightarrow> fval) \<Rightarrow> nat \<Rightarrow> (nat \<Rightarrow> nat \<Rightarrow> nat \<Rightarrow> fval)
    \<Rightarrow> nat \<Rightarrow> nat \<Rightarrow> fval" where
  "reduce3_axis2 red B2 t = (\<lambda>a b. red (map (t a b) [0..<B2]))"

definition reduce3_axis1 :: "(fval list \<Rightarrow> fval) \<Rightarrow> nat \<Rightarrow> (nat \<Rightarrow> nat \<Rightarrow> nat \<Rightarrow> fval)
    \<Rightarrow> nat \<Rightarrow> nat \<Rightarrow> fval" where
  "reduce3_axis1 red B1 t = (\<lambda>a c. red (map (\<lambda>b. t a b c) [0..<B1]))"

text \<open>An integer as a float32 value (exact up to \<open>2^24\<close> in magnitude), and a buffer of
  integers.\<close>

definition fin_int :: "int \<Rightarrow> fval" where
  "fin_int n = Fin (of_int n)"

definition int_buffer :: "int buffer \<Rightarrow> fval buffer" where
  "int_buffer xi = (\<lambda>p. fin_int (xi p))"

definition iptr_of :: "int list \<Rightarrow> int buffer" where
  "iptr_of xs = (\<lambda>p. if p < length xs then xs ! p else 0)"

section \<open>Errors\<close>

datatype error = StaticAssertError string | ValueError string

definition bind_res :: "error + 'a \<Rightarrow> ('a \<Rightarrow> error + 'b) \<Rightarrow> error + 'b" where
  "bind_res m f = (case m of Inl e \<Rightarrow> Inl e | Inr v \<Rightarrow> f v)"

text \<open>\<open>tl.static_assert(cond, msg)\<close>.\<close>

definition static_assert :: "bool \<Rightarrow> string \<Rightarrow> error + unit" where
  "static_assert cond msg = (if cond then Inr () else Inl (StaticAssertError msg))"

text \<open>A loop whose body can raise.\<close>

fun fold_res :: "('k \<Rightarrow> 's \<Rightarrow> error + 's) \<Rightarrow> 'k list \<Rightarrow> 's \<Rightarrow> error + 's" where
  "fold_res f [] s = Inr s"
| "fold_res f (k # ks) s = bind_res (f k s) (fold_res f ks)"

text \<open>\<open>tl.arange(lo, hi)\<close> with its checks: the end is greater than the start, and the
  extent \<open>range = hi - lo\<close> passes \<open>(range & (range - 1)) == 0\<close>, that is, is a power of
  two. The kernels of puzzles 7, 10, 11 and 12 below call it through \<open>tl_arange\<close>.\<close>

definition is_pow2 :: "nat \<Rightarrow> bool" where
  "is_pow2 n = (0 < n \<and> n AND (n - 1) = 0)"

definition tl_arange :: "nat \<Rightarrow> nat \<Rightarrow> error + (nat \<Rightarrow> nat)" where
  "tl_arange lo hi =
     (if hi \<le> lo
      then Inl (ValueError ''arange's end argument must be greater than the start argument'')
      else if (hi - lo) AND (hi - lo - 1) \<noteq> 0
      then Inl (ValueError ''arange's range must be a power of 2'')
      else Inr (arange lo hi))"

text \<open>\<open>tl.range(start, stop, step)\<close> with the check of \<open>range\<close>: a zero step raises.\<close>

definition tl_range :: "nat \<Rightarrow> nat \<Rightarrow> nat \<Rightarrow> error + nat list" where
  "tl_range start stop step =
     (if step = 0 then Inl (ValueError ''range() arg 3 must not be zero'')
      else Inr (trange start stop step))"

text \<open>Modelled from the spec: a launch whose kernel body can fail (the launcher is not among
  the sources). The instances run in the order of the grid, and a body that fails fails
  the whole run, which then has no writes.\<close>

definition launch_res :: "(nat \<times> nat \<times> nat \<Rightarrow> error + 'a writes) \<Rightarrow> nat \<Rightarrow> nat \<Rightarrow> nat
    \<Rightarrow> error + 'a writes" where
  "launch_res body g0 g1 g2 =
     fold_res (\<lambda>pid ws. bind_res (body pid) (\<lambda>w. Inr (ws @ w))) (grid g0 g1 g2) []"

section \<open>Puzzle 7: long sum\<close>

text \<open>\<open>sum_spec\<close>: \<open>x.sum(1)\<close> of \<open>x\<close> of shape \<open>[N0, T]\<close>, laid out row-major, with the
  reduction \<open>red\<close> of torch.\<close>

definition sum_spec :: "(fval list \<Rightarrow> fval) \<Rightarrow> fval buffer \<Rightarrow> nat \<Rightarrow> nat \<Rightarrow> fval list" where
  "sum_spec red x N0 T = map (\<lambda>i. red (map (\<lambda>j. x (i * T + j)) [0..<T])) [0..<N0]"

text \<open>\<open>sum_kernel\<close>, with the reduction \<open>red\<close> of \<open>vals.sum(axis=1)\<close>.\<close>

definition sum_kernel :: "(fval list \<Rightarrow> fval) \<Rightarrow> fval buffer \<Rightarrow> nat \<Rightarrow> nat \<Rightarrow> nat \<Rightarrow> nat \<Rightarrow> nat
    \<Rightarrow> nat \<times> nat \<times> nat \<Rightarrow> error + fval writes" where
  "sum_kernel red x_ptr N0 N1 T B0 B1 pid =
     (let block_id_i = program_id pid 0
      in bind_res (tl_arange 0 B0) (\<lambda>arange_B0.
     (let idx_i = (\<lambda>a. block_id_i * B0 + arange_B0 a);
          mask_i = (\<lambda>a. idx_i a < N0);
          sums_v = (\<lambda>a. Fin 0)
      in bind_res (tl_range 0 T B1) (\<lambda>starts.
         bind_res (fold_res (\<lambda>idx_j_start sums_v.
           bind_res (tl_arange 0 B1) (\<lambda>arange_B1.
          (let idx_j = (\<lambda>b. idx_j_start + arange_B1 b);
               mask_j = (\<lambda>b. idx_j b < T);
               idx_ij = (\<lambda>a b. expand_dims_1 idx_i a b * T + expand_dims_0 idx_j a b);
               mask_ij = (\<lambda>a b. expand_dims_1 mask_i a b \<and> expand_dims_0 mask_j a b);
               vals = load2 x_ptr idx_ij mask_ij (Fin 0)
           in Inr (\<lambda>a. f32_add (sums_v a) (reduce_axis1 red B1 vals a))))) starts sums_v)
           (\<lambda>sums_v.
         Inr (store1 B0 idx_i sums_v mask_i))))))"

section \<open>Puzzle 10: two dimensional convolution\<close>

definition no_mask2 :: "nat \<Rightarrow> nat \<Rightarrow> bool" where
  "no_mask2 = (\<lambda>a b. True)"

text \<open>\<open>torch.nn.functional.pad(x, (0, KW, 0, KH, 0, 0), value=0.0)\<close> at \<open>[n, r, c]\<close>, for
  \<open>x\<close> of shape \<open>[N0, H, W]\<close>: zeros to the right of and below each image. The source
  writes the pad 4 for its \<open>4 \<times> 4\<close> kernel.\<close>

definition pad_x :: "fval buffer \<Rightarrow> nat \<Rightarrow> nat \<Rightarrow> nat \<Rightarrow> nat \<Rightarrow> nat \<Rightarrow> fval" where
  "pad_x x H W n r c = (if r < H \<and> c < W then x (n * H * W + r * W + c) else Fin 0)"

text \<open>\<open>conv2d_spec\<close>: \<open>z[:, i, j] = (k[None, :, :] * x[:, i : i + KH, j : j + KW]).sum(1).sum(1)\<close>
  on the padded \<open>x\<close>, with the reduction \<open>red\<close> of torch; the source writes the extents 8
  and 4 of its test shapes.\<close>

definition conv2d_spec :: "(fval list \<Rightarrow> fval) \<Rightarrow> fval buffer \<Rightarrow> fval buffer \<Rightarrow> nat \<Rightarrow> nat
    \<Rightarrow> nat \<Rightarrow> nat \<Rightarrow> nat \<Rightarrow> nat \<Rightarrow> nat \<Rightarrow> fval" where
  "conv2d_spec red x k H W KH KW n i j =
     reduce_axis1 red KW
       (reduce3_axis1 red KH (\<lambda>n a b. f32_mul (k (a * KW + b)) (pad_x x H W n (i + a) (j + b)))) n"

text \<open>\<open>conv2d_kernel\<close>, with the reduction \<open>red\<close> of its \<open>sum(2)\<close> and \<open>sum(1)\<close>.\<close>

definition conv2d_kernel :: "(fval list \<Rightarrow> fval) \<Rightarrow> fval buffer \<Rightarrow> fval buffer \<Rightarrow> nat \<Rightarrow> nat
    \<Rightarrow> nat \<Rightarrow> nat \<Rightarrow> nat \<Rightarrow> nat \<Rightarrow> nat \<times> nat \<times> nat \<Rightarrow> error + fval writes" where
  "conv2d_kernel red x_ptr k_ptr N0 H W KH KW B0 pid =
     (let block_id_i = program_id pid 0
      in bind_res (tl_arange 0 KH) (\<lambda>arange_KH.
         bind_res (tl_arange 0 KW) (\<lambda>arange_KW.
     (let idx_kernel = (\<lambda>a b. KW * expand_dims_1 arange_KH a b + expand_dims_0 arange_KW a b);
          kernel_t = load2 k_ptr idx_kernel no_mask2 (Fin 0)
      in bind_res (tl_arange 0 B0) (\<lambda>arange_B0.
     (let offset_b = (\<lambda>a b c. expand_dims_12 (\<lambda>a. block_id_i * B0 + arange_B0 a) a b c * H * W);
          mask_b = expand_dims_12 (\<lambda>a. block_id_i * B0 + arange_B0 a < N0)
      in bind_res (tl_range 0 H 1) (\<lambda>hs.
         fold_res (\<lambda>h ws.
           bind_res (tl_arange h (h + KH)) (\<lambda>arange_h.
          (let offset_h = (\<lambda>a b c. expand_dims_02 arange_h a b c * W);
               mask_h = expand_dims_02 (\<lambda>a. arange_h a < H)
           in bind_res (tl_range 0 W 1) (\<lambda>wds.
              fold_res (\<lambda>w ws.
                bind_res (tl_arange w (w + KW)) (\<lambda>arange_w.
               (let offset_w = expand_dims_01 arange_w;
                    mask_w = expand_dims_01 (\<lambda>a. arange_w a < W);
                    offset_tile = (\<lambda>a b c. offset_b a b c + offset_h a b c + offset_w a b c);
                    mask_tile = (\<lambda>a b c. mask_b a b c \<and> mask_h a b c \<and> mask_w a b c);
                    inp = load3 x_ptr offset_tile mask_tile (Fin 0);
                    conv = reduce_axis1 red KH
                      (reduce3_axis2 red KW (\<lambda>a b c. f32_mul (inp a b c) (kernel_t b c)));
                    out_idx = (\<lambda>a. (block_id_i * B0 + arange_B0 a) * H * W + h * W + w);
                    out_mask = (\<lambda>a. block_id_i * B0 + arange_B0 a < N0)
                in Inr (ws @ store1 B0 out_idx conv out_mask)))) wds ws)))) hs [])))))))"

section \<open>Puzzle 11: matrix multiplication\<close>

text \<open>\<open>dot_spec\<close>: element \<open>[i, j, k]\<close> of the batched product \<open>x @ y\<close>, for \<open>x\<close> of shape
  \<open>[N2, N1, MID]\<close> and \<open>y\<close> of shape \<open>[N2, MID, N0]\<close>, both row-major: the float32
  products along the contraction axis, added by the reduction \<open>red\<close> of torch.\<close>

definition dot_spec :: "(fval list \<Rightarrow> fval) \<Rightarrow> fval buffer \<Rightarrow> fval buffer \<Rightarrow> nat \<Rightarrow> nat \<Rightarrow> nat
    \<Rightarrow> nat \<Rightarrow> nat \<Rightarrow> nat \<Rightarrow> fval" where
  "dot_spec red x y N0 N1 MID i j k =
     red (map (\<lambda>l. f32_mul (x (i * N1 * MID + j * MID + l)) (y (i * MID * N0 + l * N0 + k)))
       [0..<MID])"

text \<open>\<open>tl.dot(A, B)\<close> for \<open>A\<close> of extent \<open>[B2, B1, K]\<close> and \<open>B\<close> of extent \<open>[B2, K, B0]\<close>,
  with its reduction \<open>red\<close>.\<close>

definition dot3 :: "(fval list \<Rightarrow> fval) \<Rightarrow> nat \<Rightarrow> (nat \<Rightarrow> nat \<Rightarrow> nat \<Rightarrow> fval)
    \<Rightarrow> (nat \<Rightarrow> nat \<Rightarrow> nat \<Rightarrow> fval) \<Rightarrow> nat \<Rightarrow> nat \<Rightarrow> nat \<Rightarrow> fval" where
  "dot3 red K A B = (\<lambda>b m n. red (map (\<lambda>t. f32_mul (A b m t) (B b t n)) [0..<K]))"

definition dot_kernel :: "(fval list \<Rightarrow> fval) \<Rightarrow> fval buffer \<Rightarrow> fval buffer \<Rightarrow> nat \<Rightarrow> nat \<Rightarrow> nat
    \<Rightarrow> nat \<Rightarrow> nat \<Rightarrow> nat \<Rightarrow> nat \<Rightarrow> nat \<Rightarrow> nat \<times> nat \<times> nat \<Rightarrow> error + fval writes" where
  "dot_kernel red x_ptr y_ptr N0 N1 N2 MID B0 B1 B2 B_MID pid =
     (let block_id_n = program_id pid 0;
          block_id_m = program_id pid 1;
          block_id_b = program_id pid 2
      in bind_res (tl_arange 0 B2) (\<lambda>arange_B2.
         bind_res (tl_arange 0 B1) (\<lambda>arange_B1.
         bind_res (tl_arange 0 B0) (\<lambda>arange_B0.
     (let idx_b = (\<lambda>a. block_id_b * B2 + arange_B2 a);
          idx_m = (\<lambda>a. block_id_m * B1 + arange_B1 a);
          idx_n = (\<lambda>a. block_id_n * B0 + arange_B0 a);
          tile = (\<lambda>a b c. Fin 0)
      in bind_res (tl_range 0 MID B_MID) (\<lambda>starts.
         bind_res (fold_res (\<lambda>k tile.
           bind_res (tl_arange 0 B_MID) (\<lambda>arange_B_MID.
          (let idx_k = (\<lambda>a. k + arange_B_MID a);
               idx_A = (\<lambda>a b c. expand_dims_12 idx_b a b c * N1 * MID
                         + expand_dims_02 idx_m a b c * MID
                         + expand_dims_01 idx_k a b c);
               msk_A = (\<lambda>a b c. expand_dims_12 (\<lambda>a. idx_b a < N2) a b c
                         \<and> expand_dims_02 (\<lambda>a. idx_m a < N1) a b c
                         \<and> expand_dims_01 (\<lambda>a. idx_k a < MID) a b c);
               A = load3 x_ptr idx_A msk_A (Fin 0);
               idx_B = (\<lambda>a b c. expand_dims_12 idx_b a b c * MID * N0
                         + expand_dims_02 idx_k a b c * N0
                         + expand_dims_01 idx_n a b c);
               msk_B = (\<lambda>a b c. expand_dims_12 (\<lambda>a. idx_b a < N2) a b c
                         \<and> expand_dims_02 (\<lambda>a. idx_k a < MID) a b c
                         \<and> expand_dims_01 (\<lambda>a. idx_n a < N0) a b c);
               B = load3 y_ptr idx_B msk_B (Fin 0)
           in Inr (\<lambda>a b c. f32_add (tile a b c) (dot3 red B_MID A B a b c))))) starts tile)
           (\<lambda>tile.
     (let idx_C = (\<lambda>a b c. expand_dims_12 idx_b a b c * N1 * N0
                    + expand_dims_02 idx_m a b c * N0
                    + expand_dims_01 idx_n a b c);
          msk_C = (\<lambda>a b c. expand_dims_12 (\<lambda>a. idx_b a < N2) a b c
                    \<and> expand_dims_02 (\<lambda>a. idx_m a < N1) a b c
                    \<and> expand_dims_01 (\<lambda>a. idx_n a < N0) a b c)
      in Inr (store3 B2 B1 B0 idx_C tile msk_C)))))))))"

section \<open>Puzzle 12: quantized matrix multiplication\<close>

type_synonym int32 = "32 word"

definition FPINT :: nat where
  "FPINT = 32 div 4"

definition GROUP :: nat where
  "GROUP = 8"

subsection \<open>The reference\<close>

text \<open>\<open>extract_lane\<close> is the source's \<open>extract\<close> at one lane: lane \<open>i\<close> of \<open>(x[..., None] >> over) & mask\<close> with
  \<open>over = torch.arange(8) * 4\<close> and \<open>mask = 2**4 - 1\<close>. The shift amounts are 64-bit, so
  torch computes on the sign-extended value of the 32-bit word, an integer here; \<open>>>\<close>
  is the arithmetic shift.\<close>

definition extract_lane :: "int \<Rightarrow> nat \<Rightarrow> int" where
  "extract_lane x i = (drop_bit (i * 4) x) AND (2 ^ 4 - 1)"

text \<open>The dequantized weight matrix of \<open>quant_dot_spec\<close>, element \<open>[m, p]\<close> with
  \<open>p < 64\<close>: \<open>scale\<close> of shape \<open>[N0, 8]\<close> expanded \<open>GROUP\<close> times, the 8 lanes of the one
  offset word of row \<open>m\<close> expanded \<open>GROUP\<close> times each, and the 8 lanes of each of the 8
  weight words of the row.\<close>

definition quant_dequant_spec :: "real buffer \<Rightarrow> int32 buffer \<Rightarrow> int32 buffer \<Rightarrow> nat \<Rightarrow> nat \<Rightarrow> real" where
  "quant_dequant_spec scale offset weight m p =
     (let scale_full = scale (m * 8 + p div GROUP);
          offset_full = extract_lane (sint (offset m)) (p div GROUP);
          weight_full = extract_lane (sint (weight (m * 8 + p div 8))) (p mod 8)
      in scale_full * real_of_int (weight_full - offset_full))"

text \<open>\<open>quant_dot_spec\<close>: the product of that matrix with \<open>activation\<close> of shape
  \<open>[64, N1]\<close>, element \<open>[m, n]\<close>.\<close>

definition quant_dot_spec :: "real buffer \<Rightarrow> int32 buffer \<Rightarrow> int32 buffer \<Rightarrow> real buffer
    \<Rightarrow> nat \<Rightarrow> nat \<Rightarrow> nat \<Rightarrow> real" where
  "quant_dot_spec scale offset weight activation N1 m n =
     sum_list (map (\<lambda>p. quant_dequant_spec scale offset weight m p * activation (p * N1 + n)) [0..<64])"

subsection \<open>The kernel\<close>

text \<open>\<open>t.reshape(B0, B_MID)\<close> of a tile of extent \<open>[B0, K, F]\<close> and \<open>t.reshape(B_MID)\<close> of a
  tile of extent \<open>[F, G]\<close>, both row-major: Triton refuses a reshape that changes the number
  of elements.\<close>

definition reshape_3_2 :: "nat \<Rightarrow> nat \<Rightarrow> nat \<Rightarrow> nat \<Rightarrow> (nat \<Rightarrow> nat \<Rightarrow> nat \<Rightarrow> 'a)
    \<Rightarrow> error + (nat \<Rightarrow> nat \<Rightarrow> 'a)" where
  "reshape_3_2 B0 K F B_MID t =
     (if B0 * K * F \<noteq> B0 * B_MID
      then Inl (ValueError ''reshape() cannot change total number of elements in tensor'')
      else Inr (\<lambda>a p. t a (p div F) (p mod F)))"

definition reshape_2_1 :: "nat \<Rightarrow> nat \<Rightarrow> nat \<Rightarrow> (nat \<Rightarrow> nat \<Rightarrow> 'a) \<Rightarrow> error + (nat \<Rightarrow> 'a)" where
  "reshape_2_1 F G B_MID t =
     (if F * G \<noteq> B_MID
      then Inl (ValueError ''reshape() cannot change total number of elements in tensor'')
      else Inr (\<lambda>p. t (p div G) (p mod G)))"


text \<open>\<open>%\<close> as the kernel evaluates it: \<open>MID\<close> reaches the kernel as a 32-bit integer
  tensor, whose remainder by zero is 0 and does not raise.\<close>

definition np_mod :: "nat \<Rightarrow> nat \<Rightarrow> nat" where
  "np_mod a b = (if b = 0 then 0 else a mod b)"

text \<open>The five static assertions, in the order of the source. The third carries the
  message of the second in the source.\<close>

definition quant_dot_checks :: "nat \<Rightarrow> nat \<Rightarrow> error + unit" where
  "quant_dot_checks MID B_MID =
     bind_res (static_assert (np_mod MID FPINT = 0) ''MID % FPINT != 0'') (\<lambda>_.
     bind_res (static_assert (np_mod B_MID FPINT = 0) ''B_MID % FPINT != 0'') (\<lambda>_.
     bind_res (static_assert (np_mod MID B_MID = 0) ''B_MID % FPINT != 0'') (\<lambda>_.
     bind_res (static_assert (np_mod (MID div FPINT) (B_MID div FPINT) = 0)
                 ''(MID // FPINT) % (B_MID // FPINT) != 0'') (\<lambda>_.
     static_assert (np_mod MID GROUP = 0) ''MID % GROUP != 0''))))"

definition BITS :: nat where
  "BITS = 32 div FPINT"

text \<open>\<open>(x >> shift) & ((1 << BITS) - 1)\<close> on a signed 32-bit word, as the kernel writes
  it for the weights and for the offsets.\<close>

definition unpack :: "int32 \<Rightarrow> nat \<Rightarrow> int32" where
  "unpack x shift = (signed_drop_bit shift x) AND (push_bit BITS 1 - 1)"

text \<open>The dequantized weight tile of one loop iteration (\<open>dequant_weight\<close>), of extent
  \<open>[B0, B_MID]\<close>: the loads of the weight words, the scales and the offset words, the two
  unpackings and \<open>scale * (quant_weight - offset)\<close>. The difference is a 32-bit integer,
  converted when it meets the float. (\<open>idx_offset_m\<close> and \<open>msk_offset_m\<close> are the source's
  \<open>_idx_offset\<close> and \<open>_msk_offset\<close>.)\<close>

definition quant_dequant_tile :: "real buffer \<Rightarrow> int32 buffer \<Rightarrow> int32 buffer \<Rightarrow> nat \<Rightarrow> nat
    \<Rightarrow> nat \<Rightarrow> nat \<Rightarrow> (nat \<Rightarrow> nat) \<Rightarrow> nat \<Rightarrow> error + (nat \<Rightarrow> nat \<Rightarrow> real)" where
  "quant_dequant_tile scale_ptr offset_ptr weight_ptr N0 MID B0 B_MID idx_m k =
     (let msk_m = (\<lambda>a. idx_m a < N0)
      in bind_res (tl_arange 0 (B_MID div FPINT)) (\<lambda>arange_scaled.
     (let idx_scaled_k = (\<lambda>b. k div FPINT + arange_scaled b);
          mask_scaled_k = (\<lambda>b. idx_scaled_k b < MID div FPINT);
          idx_quant_weight = (\<lambda>a b. expand_dims_1 idx_m a b * (MID div FPINT)
                               + expand_dims_0 idx_scaled_k a b);
          msk_quant_weight = (\<lambda>a b. expand_dims_1 msk_m a b \<and> expand_dims_0 mask_scaled_k a b);
          quant_weight = load2 weight_ptr idx_quant_weight msk_quant_weight 0
      in bind_res (tl_arange 0 FPINT) (\<lambda>arange_FPINT.
     (let quant_weight = (\<lambda>a b c. unpack (quant_weight a b) (arange_FPINT c * (32 div FPINT)))
      in bind_res (reshape_3_2 B0 (B_MID div FPINT) FPINT B_MID quant_weight) (\<lambda>quant_weight.
         bind_res (tl_arange 0 B_MID) (\<lambda>arange_B_MID.
     (let idx_k = (\<lambda>b. k + arange_B_MID b);
          idx_scale = (\<lambda>b. idx_k b div GROUP);
          msk_scale = (\<lambda>b. idx_scale b < MID div GROUP);
          idx_scale_factory = (\<lambda>a b. expand_dims_1 idx_m a b * (MID div GROUP)
                                + expand_dims_0 idx_scale a b);
          msk_scale_factory = (\<lambda>a b. expand_dims_1 msk_m a b \<and> expand_dims_0 msk_scale a b);
          scale = load2 scale_ptr idx_scale_factory msk_scale_factory 0;
          idx_offset = (\<lambda>b. idx_k b div GROUP div FPINT);
          msk_offset = (\<lambda>b. idx_offset b < B_MID div GROUP div FPINT);
          idx_offset_m = (\<lambda>a b. expand_dims_1 idx_m a b * (MID div GROUP div FPINT)
                           + expand_dims_0 idx_offset a b);
          msk_offset_m = (\<lambda>a b. expand_dims_1 msk_m a b \<and> expand_dims_0 msk_offset a b);
          offset = load2 offset_ptr idx_offset_m msk_offset_m 0
      in bind_res (tl_arange 0 FPINT) (\<lambda>arange_FPINT.
         bind_res (reshape_2_1 FPINT GROUP B_MID
            (expand_dims_1 (\<lambda>a. arange_FPINT a * (32 div FPINT)))) (\<lambda>offset_shifts.
     (let offset = (\<lambda>a b. unpack (offset a b) (offset_shifts b))
      in Inr (\<lambda>a b. scale a b * real_of_int (sint (quant_weight a b - offset a b))))))))))))))"

text \<open>\<open>tl.dot(A, B)\<close> for \<open>A\<close> of extent \<open>[B0, K]\<close> and \<open>B\<close> of extent \<open>[K, B1]\<close>.\<close>

definition dot2 :: "nat \<Rightarrow> (nat \<Rightarrow> nat \<Rightarrow> real) \<Rightarrow> (nat \<Rightarrow> nat \<Rightarrow> real) \<Rightarrow> nat \<Rightarrow> nat \<Rightarrow> real" where
  "dot2 K A B = (\<lambda>a c. sum_list (map (\<lambda>t. A a t * B t c) [0..<K]))"

text \<open>\<open>quant_dot_kernel\<close>. The two \<open>tl.arange\<close> of \<open>idx_m\<close> and \<open>idx_n\<close> come before
  the static assertions, the loop's \<open>tl.range\<close> after them.\<close>

definition quant_dot_kernel :: "real buffer \<Rightarrow> int32 buffer \<Rightarrow> int32 buffer \<Rightarrow> real buffer
    \<Rightarrow> nat \<Rightarrow> nat \<Rightarrow> nat \<Rightarrow> nat \<Rightarrow> nat \<Rightarrow> nat \<Rightarrow> nat \<times> nat \<times> nat \<Rightarrow> error + real writes" where
  "quant_dot_kernel scale_ptr offset_ptr weight_ptr activation_ptr N0 N1 MID B0 B1 B_MID pid =
     (let block_id_m = program_id pid 0;
          block_id_n = program_id pid 1
      in bind_res (tl_arange 0 B0) (\<lambda>arange_B0.
         bind_res (tl_arange 0 B1) (\<lambda>arange_B1.
     (let idx_m = (\<lambda>a. block_id_m * B0 + arange_B0 a);
          idx_n = (\<lambda>a. block_id_n * B1 + arange_B1 a);
          msk_m = (\<lambda>a. idx_m a < N0);
          msk_n = (\<lambda>a. idx_n a < N1);
          tile = (\<lambda>a b. 0)
      in bind_res (quant_dot_checks MID B_MID) (\<lambda>_.
         bind_res (tl_range 0 MID B_MID) (\<lambda>starts.
         bind_res (fold_res (\<lambda>k tile.
           bind_res (quant_dequant_tile scale_ptr offset_ptr weight_ptr N0 MID B0 B_MID idx_m k)
             (\<lambda>dequant_weight.
               (let idx_k = (\<lambda>b. k + arange 0 B_MID b);
                    idx_act = (\<lambda>a b. expand_dims_1 idx_k a b * N1 + expand_dims_0 idx_n a b);
                    msk_act = (\<lambda>a b. expand_dims_1 (\<lambda>a. idx_k a < MID) a b
                                \<and> expand_dims_0 msk_n a b);
                    act = load2 activation_ptr idx_act msk_act 0
                in Inr (\<lambda>a b. tile a b + dot2 B_MID dequant_weight act a b))))
           starts tile) (\<lambda>tile.
         (let idx_out = (\<lambda>a b. expand_dims_1 idx_m a b * N1 + expand_dims_0 idx_n a b);
              msk_out = (\<lambda>a b. expand_dims_1 msk_m a b \<and> expand_dims_0 msk_n a b)
          in Inr (store2 B0 B1 idx_out tile msk_out)))))))))"

text \<open>The divisibility preconditions as the specification words them: the contraction
  block size divisible by \<open>FPINT\<close>, the full contraction extent divisible by \<open>FPINT\<close> and
  by \<open>GROUP\<close>, and the contraction extent divisible by the block size.\<close>

definition quant_dot_preconditions :: "nat \<Rightarrow> nat \<Rightarrow> bool" where
  "quant_dot_preconditions MID B_MID =
     (B_MID mod FPINT = 0 \<and> MID mod FPINT = 0 \<and> MID mod GROUP = 0 \<and> MID mod B_MID = 0)"

section \<open>Facts about writes\<close>

lemma commit_Nil [simp]: "commit [] z = z"
  by (simp add: commit_def)

lemma commit_Cons [simp]: "commit (w # ws) z = commit ws (z(fst w := snd w))"
  by (simp add: commit_def)

lemma commit_append [simp]: "commit (ws @ ws') z = commit ws' (commit ws z)"
  by (simp add: commit_def)

lemma commit_frame: "p \<notin> fst ` set ws \<Longrightarrow> commit ws z p = z p"
  by (induction ws arbitrary: z) auto

lemma commit_value:
  "p \<in> fst ` set ws \<Longrightarrow> (\<And>w. w \<in> set ws \<Longrightarrow> fst w = p \<Longrightarrow> snd w = v) \<Longrightarrow> commit ws z p = v"
proof (induction ws arbitrary: z)
  case Nil
  then show ?case by simp
next
  case (Cons w ws)
  show ?case
  proof (cases "p \<in> fst ` set ws")
    case True
    then show ?thesis using Cons by simp
  next
    case False
    then have "fst w = p" using Cons.prems(1) by auto
    then have "snd w = v" using Cons.prems(2) by simp
    then show ?thesis using False \<open>fst w = p\<close> by (simp add: commit_frame)
  qed
qed

lemma set_store1: "set (store1 B idx vals msk) = {(idx a, vals a) | a. a < B \<and> msk a}"
  by (auto simp: store1_def)

lemma set_store2:
  "set (store2 B0 B1 idx vals msk) = {(idx a b, vals a b) | a b. a < B0 \<and> b < B1 \<and> msk a b}"
  unfolding store2_def by (fastforce simp: set_store1)

lemma set_store3:
  "set (store3 B0 B1 B2 idx vals msk) =
     {(idx a b c, vals a b c) | a b c. a < B0 \<and> b < B1 \<and> c < B2 \<and> msk a b c}"
  unfolding store3_def by (fastforce simp: set_store2)

lemma set_grid: "set (grid g0 g1 g2) = {(i, j, k) | i j k. i < g0 \<and> j < g1 \<and> k < g2}"
  unfolding grid_def by fastforce

lemma set_launch:
  "set (launch body g0 g1 g2) = (\<Union>pid \<in> set (grid g0 g1 g2). set (body pid))"
  by (auto simp: launch_def)

section \<open>Puzzle 1 and the masked store\<close>


lemma fst_set_store1: "fst ` set (store1 B idx vals msk) = {idx a | a. a < B \<and> msk a}"
  unfolding set_store1 by force

lemma commit_store1_frame:
  "(\<And>a. a < B \<Longrightarrow> msk a \<Longrightarrow> idx a \<noteq> p) \<Longrightarrow> commit (store1 B idx vals msk) z p = z p"
proof (rule commit_frame)
  assume h: "\<And>a. a < B \<Longrightarrow> msk a \<Longrightarrow> idx a \<noteq> p"
  show "p \<notin> fst ` set (store1 B idx vals msk)"
    unfolding fst_set_store1 using h by blast
qed

lemma commit_store1_value:
  assumes "a < B" "msk a"
    and "\<And>a'. a' < B \<Longrightarrow> msk a' \<Longrightarrow> idx a' = idx a \<Longrightarrow> vals a' = vals a"
  shows "commit (store1 B idx vals msk) z (idx a) = vals a"
proof (rule commit_value)
  show "idx a \<in> fst ` set (store1 B idx vals msk)"
    unfolding fst_set_store1 using assms(1,2) by blast
next
  fix w assume "w \<in> set (store1 B idx vals msk)" "fst w = idx a"
  then obtain a' where "a' < B" "msk a'" "w = (idx a', vals a')"
    unfolding set_store1 by blast
  with assms(3) \<open>fst w = idx a\<close> show "snd w = vals a" by simp
qed

lemma add_kernel_commit:
  "commit (add_kernel x_ptr N0 B0 pid) z p = (if p < B0 then x_ptr p + 10 else z p)"
proof (cases "p < B0")
  case True
  have "commit (store1 B0 (arange 0 B0) (\<lambda>a. load1 x_ptr (arange 0 B0) no_mask1 0 a + 10) no_mask1) z
     (arange 0 B0 p) = load1 x_ptr (arange 0 B0) no_mask1 0 p + 10"
    by (rule commit_store1_value) (use True in \<open>simp_all add: no_mask1_def arange_def\<close>)
  then show ?thesis using True by (simp add: add_kernel_def Let_def arange_def load1_def no_mask1_def)
next
  case False
  then show ?thesis
    unfolding add_kernel_def Let_def by (simp add: commit_store1_frame arange_def)
qed

lemma grid_111: "grid (Suc 0) (Suc 0) (Suc 0) = [(0,0,0)]"
  by (simp add: grid_def)

lemma launch_111: "launch body (Suc 0) (Suc 0) (Suc 0) = body (0, 0, 0)"
  by (simp add: launch_def grid_111)

text \<open>Claim C5, as amended: \<open>add_kernel\<close> on an input vector of 32 ones with block
  size \<open>B0 = 32\<close>, launched on the grid of the harness, leaves 11.0 in each of the 32
  output elements (the kernel adds 10.0 to every element, as \<open>add_spec\<close> does).\<close>

theorem add_kernel_ones:
  "(\<forall>i<32. x_ptr i = 1) \<Longrightarrow>
   map (commit (launch (add_kernel x_ptr 32 32) (cdiv 32 32) 1 1) z) [0..<32] = replicate 32 11"
  by (simp add: list_eq_iff_nth_eq cdiv_def launch_111 add_kernel_commit)

text \<open>The theorem at the vector of 32 ones, the output buffer starting as zeros.\<close>

theorem add_kernel_ones_witness:
  "map (commit (launch (add_kernel (ptr_of (replicate 32 1)) 32 32) (cdiv 32 32) 1 1)
     (ptr_of (replicate 32 0))) [0..<32] = replicate 32 11"
  by (rule add_kernel_ones) (simp add: ptr_of_def)

text \<open>Claim C5 as stated fails: element 0 of the output is not 10.0.\<close>

theorem add_kernel_ten_counterexample:
  "commit (launch (add_kernel (ptr_of (replicate 32 1)) 32 32) (cdiv 32 32) 1 1)
     (ptr_of (replicate 32 0)) 0 \<noteq> 10"
  by (simp add: cdiv_def launch_111 add_kernel_commit ptr_of_def)

text \<open>Claim C9: a masked store writes only where its mask is true. For every buffer,
  index tile, mask and value tile (of one, two or three axes), a buffer position that no
  masked-true index selects holds its prior value after the store.\<close>

theorem masked_store_frame:
  "((\<forall>a<B. msk1 a \<longrightarrow> idx1 a \<noteq> p) \<longrightarrow> commit (store1 B idx1 vals1 msk1) z p = z p) \<and>
   ((\<forall>a<B0. \<forall>b<B1. msk2 a b \<longrightarrow> idx2 a b \<noteq> p) \<longrightarrow>
      commit (store2 B0 B1 idx2 vals2 msk2) z p = z p) \<and>
   ((\<forall>a<B0. \<forall>b<B1. \<forall>c<B2. msk3 a b c \<longrightarrow> idx3 a b c \<noteq> p) \<longrightarrow>
      commit (store3 B0 B1 B2 idx3 vals3 msk3) z p = z p)"
proof (intro conjI impI commit_frame)
  assume "\<forall>a<B. msk1 a \<longrightarrow> idx1 a \<noteq> p"
  then show "p \<notin> fst ` set (store1 B idx1 vals1 msk1)"
    unfolding fst_set_store1 by blast
next
  assume h: "\<forall>a<B0. \<forall>b<B1. msk2 a b \<longrightarrow> idx2 a b \<noteq> p"
  show "p \<notin> fst ` set (store2 B0 B1 idx2 vals2 msk2)"
  proof
    assume "p \<in> fst ` set (store2 B0 B1 idx2 vals2 msk2)"
    then obtain a b where "a < B0" "b < B1" "msk2 a b" "idx2 a b = p"
      unfolding set_store2 by force
    with h show False by blast
  qed
next
  assume h: "\<forall>a<B0. \<forall>b<B1. \<forall>c<B2. msk3 a b c \<longrightarrow> idx3 a b c \<noteq> p"
  show "p \<notin> fst ` set (store3 B0 B1 B2 idx3 vals3 msk3)"
  proof
    assume "p \<in> fst ` set (store3 B0 B1 B2 idx3 vals3 msk3)"
    then obtain a b c where "a < B0" "b < B1" "c < B2" "msk3 a b c" "idx3 a b c = p"
      unfolding set_store3 by force
    with h show False by blast
  qed
qed

text \<open>The theorem at \<open>demo3\<close> (position 5 of a buffer of twelve ones is masked out),
  and the same frame for the last instance of \<open>add_mask2_kernel\<close> at position 200.\<close>

theorem masked_store_frame_witness:
  "commit demo3 (ptr_of (replicate 12 1)) 5 = 1 \<and>
   commit (add_mask2_kernel (ptr_of (replicate 200 1)) 200 32 (6, 0, 0)) (ptr_of (replicate 200 0)) 200 = 0"
proof -
  have "commit (store1 8 (arange 0 8) (\<lambda>a. 10) (\<lambda>a. arange 0 8 a < 5)) (ptr_of (replicate 12 (1::real))) 5 = ptr_of (replicate 12 1) 5"
    using masked_store_frame [of 8 "\<lambda>a. arange 0 8 a < 5" "arange 0 8" 5 "\<lambda>a. 10" "ptr_of (replicate 12 (1::real))"]
    by (simp add: arange_def)
  moreover have "commit (add_mask2_kernel (ptr_of (replicate 200 1)) 200 32 (6, 0, 0)) (ptr_of (replicate 200 0)) 200 = 0"
    unfolding add_mask2_kernel_def Let_def
    by (subst commit_store1_frame) (simp_all add: program_id_def arange_def ptr_of_def)
  ultimately show ?thesis by (simp add: demo3_def Let_def ptr_of_def)
qed

section \<open>Facts about chunks, grids and addresses\<close>

lemma bind_res_Inr [simp]: "bind_res (Inr v) f = f v"
  by (simp add: bind_res_def)

lemma bind_res_Inl [simp]: "bind_res (Inl e) f = Inl e"
  by (simp add: bind_res_def)

text \<open>The chunks of a streamed axis, masked at its bound, cover the axis once.\<close>

lemma chunked_sum:
  fixes f :: "nat \<Rightarrow> 'a::comm_monoid_add"
  assumes "0 < B"
  shows "sum_list (map (\<lambda>s. sum_list (map (\<lambda>b. if s + b < T then f (s + b) else 0) [0..<B]))
           (trange 0 T B)) = sum_list (map f [0..<T])"
proof -
  define g where "g j = (if j < T then f j else 0)" for j
  define n where "n = cdiv T B"
  have nT: "T \<le> n * B"
  proof -
    have "T + B - 1 < ((T + B - 1) div B + 1) * B"
      using assms by (metis Suc_eq_plus1 dividend_less_div_times mult.commute mult_Suc)
    then show ?thesis using assms unfolding n_def cdiv_def
      by (simp add: algebra_simps) 
  qed
  have inner: "(\<Sum>b<B. g (c * B + b)) = sum g {c * B ..< c * B + B}" for c
    using sum.shift_bounds_nat_ivl [of g 0 "c * B" B] by (simp add: add.commute atLeast0LessThan)
  have "sum_list (map (\<lambda>s. sum_list (map (\<lambda>b. g (s + b)) [0..<B])) (trange 0 T B))
      = (\<Sum>c<n. sum g {c * B ..< c * B + B})"
    by (simp add: trange_def n_def [symmetric] comp_def inner interv_sum_list_conv_sum_set_nat
        atLeast0LessThan)
  also have "\<dots> = sum g {..<n * B}"
    by (rule sum.nat_group)
  also have "\<dots> = sum g {..<T}"
    by (rule sum.mono_neutral_right) (use nT in \<open>auto simp: g_def\<close>)
  also have "\<dots> = sum f {..<T}"
    by (rule sum.cong) (auto simp: g_def)
  also have "\<dots> = sum_list (map f [0..<T])"
    by (simp add: interv_sum_list_conv_sum_set_nat atLeast0LessThan)
  finally show ?thesis by (simp add: g_def)
qed

lemma div_less_cdiv: "0 < B \<Longrightarrow> i < N \<Longrightarrow> i div B < cdiv N B"
proof -
  assume B: "0 < B" and i: "i < N"
  have "i div B \<le> (N - 1) div B" using i by (intro div_le_mono) simp
  moreover have "(N - 1) div B < (N - 1 + B) div B" using B by simp
  moreover have "N - 1 + B = N + B - 1" using i by simp
  ultimately show ?thesis by (simp add: cdiv_def)
qed

lemma cdiv_pos: "0 < B \<Longrightarrow> 0 < N \<Longrightarrow> 0 < cdiv N B"
  using div_less_cdiv [of B 0 N] by simp

lemma commit_launch_value:
  assumes "pid \<in> set (grid g0 g1 g2)" and "(p, v) \<in> set (body pid)"
    and "\<And>pid' w. pid' \<in> set (grid g0 g1 g2) \<Longrightarrow> w \<in> set (body pid') \<Longrightarrow> fst w = p \<Longrightarrow> snd w = v"
  shows "commit (launch body g0 g1 g2) z p = v"
proof (rule commit_value)
  show "p \<in> fst ` set (launch body g0 g1 g2)"
    unfolding set_launch using assms(1,2) by force
next
  fix w assume "w \<in> set (launch body g0 g1 g2)" "fst w = p"
  then show "snd w = v" unfolding set_launch using assms(3) by blast
qed

lemma commit_launch_frame:
  assumes "\<And>pid w. pid \<in> set (grid g0 g1 g2) \<Longrightarrow> w \<in> set (body pid) \<Longrightarrow> fst w \<noteq> p"
  shows "commit (launch body g0 g1 g2) z p = z p"
proof (rule commit_frame)
  show "p \<notin> fst ` set (launch body g0 g1 g2)"
    unfolding set_launch using assms by force
qed

lemma idx3_inj:
  assumes "j < N1" "k < N0" "j' < N1" "k' < N0"
    and "i * N1 * N0 + j * N0 + k = i' * N1 * N0 + j' * N0 + (k'::nat)"
  shows "i = i' \<and> j = j' \<and> k = k'"
proof -
  have e: "(i * N1 + j) * N0 + k = (i' * N1 + j') * N0 + k'"
    using assms(5) by (simp add: algebra_simps)
  have "((i * N1 + j) * N0 + k) mod N0 = k" "((i' * N1 + j') * N0 + k') mod N0 = k'"
    using assms by simp_all
  then have k: "k = k'" using e by simp
  have "((i * N1 + j) * N0 + k) div N0 = i * N1 + j" "((i' * N1 + j') * N0 + k') div N0 = i' * N1 + j'"
    using assms by simp_all
  then have e2: "i * N1 + j = i' * N1 + j'" using e by simp
  have "(i * N1 + j) mod N1 = j" "(i' * N1 + j') mod N1 = j'" using assms by simp_all
  then have j: "j = j'" using e2 by simp
  have "(i * N1 + j) div N1 = i" "(i' * N1 + j') div N1 = i'" using assms by simp_all
  then have "i = i'" using e2 by simp
  with j k show ?thesis by simp
qed

lemma trange_step1: "trange 0 n 1 = [0..<n]"
  by (simp add: trange_def cdiv_def map_idI)

lemma distinct_concat_key:
  assumes "distinct xs" and "\<And>x. x \<in> set xs \<Longrightarrow> distinct (f x)"
    and "\<And>x e. x \<in> set xs \<Longrightarrow> e \<in> set (f x) \<Longrightarrow> key e = x"
  shows "distinct (concat (map f xs))"
  using assms
proof (induction xs)
  case Nil
  then show ?case by simp
next
  case (Cons x xs)
  have "set (f x) \<inter> (\<Union>y\<in>set xs. set (f y)) = {}"
  proof (rule ccontr)
    assume "set (f x) \<inter> (\<Union>y\<in>set xs. set (f y)) \<noteq> {}"
    then obtain e y where "e \<in> set (f x)" "y \<in> set xs" "e \<in> set (f y)" by blast
    then have "key e = x" "key e = y" using Cons.prems(3) by simp_all
    then show False using Cons.prems(1) \<open>y \<in> set xs\<close> by simp
  qed
  moreover have "distinct (concat (map f xs))"
    using Cons.prems by (intro Cons.IH) simp_all
  ultimately show ?case using Cons.prems(2) by simp
qed

lemma distinct_count_list: "distinct xs \<Longrightarrow> x \<in> set xs \<Longrightarrow> count_list xs x = 1"
  by (induction xs) auto

lemma addr_decode:
  assumes "h < H" "w < (W::nat)"
  shows "(n * H * W + h * W + w) mod W = w"
    and "(n * H * W + h * W + w) div W mod H = h"
    and "(n * H * W + h * W + w) div W div H = n"
proof -
  have e: "n * H * W + h * W + w = (n * H + h) * W + w" by (simp add: algebra_simps)
  show "(n * H * W + h * W + w) mod W = w" unfolding e using assms by simp
  have d: "(n * H * W + h * W + w) div W = n * H + h" unfolding e using assms by simp
  show "(n * H * W + h * W + w) div W mod H = h" unfolding d using assms by simp
  show "(n * H * W + h * W + w) div W div H = n" unfolding d using assms by simp
qed

lemma grid_g11: "grid g0 (Suc 0) (Suc 0) = map (\<lambda>i. (i, 0, 0)) [0..<g0]"
  by (simp add: grid_def)

lemma fold_res_Inl:
  assumes "ks \<noteq> []" and "\<And>k s. f k s = Inl e"
  shows "fold_res f ks s = Inl e"
  using assms by (cases ks) simp_all

lemma grid_nonempty: "0 < g0 \<Longrightarrow> 0 < g1 \<Longrightarrow> 0 < g2 \<Longrightarrow> grid g0 g1 g2 \<noteq> []"
proof -
  assume "0 < g0" "0 < g1" "0 < g2"
  then have "(0, 0, 0) \<in> set (grid g0 g1 g2)" by (simp add: set_grid)
  then show ?thesis by auto
qed

section \<open>Facts about float32 arithmetic\<close>

lemma round_even_of_int [simp]: "round_even (of_int n) = n"
  by (simp add: round_even_def)

lemma floor_log2_bounds:
  assumes "x \<noteq> 0"
  shows "2 powr of_int \<lfloor>log 2 \<bar>x\<bar>\<rfloor> \<le> \<bar>x\<bar>" and "\<bar>x\<bar> < 2 powr (of_int \<lfloor>log 2 \<bar>x\<bar>\<rfloor> + 1)"
proof -
  have pos: "0 < \<bar>x\<bar>" using assms by simp
  have "of_int \<lfloor>log 2 \<bar>x\<bar>\<rfloor> \<le> log 2 \<bar>x\<bar>" by simp
  then have "2 powr of_int \<lfloor>log 2 \<bar>x\<bar>\<rfloor> \<le> 2 powr log 2 \<bar>x\<bar>"
    by (simp only: powr_le_cancel_iff [of 2] one_less_numeral_iff[of Num.One] semiring_norm)
  then show "2 powr of_int \<lfloor>log 2 \<bar>x\<bar>\<rfloor> \<le> \<bar>x\<bar>" using pos by simp
  have "log 2 \<bar>x\<bar> < of_int \<lfloor>log 2 \<bar>x\<bar>\<rfloor> + 1" by linarith
  then have "2 powr log 2 \<bar>x\<bar> < 2 powr (of_int \<lfloor>log 2 \<bar>x\<bar>\<rfloor> + 1)"
    by (intro powr_less_mono) simp_all
  then show "\<bar>x\<bar> < 2 powr (of_int \<lfloor>log 2 \<bar>x\<bar>\<rfloor> + 1)" using pos by simp
qed

lemma floor_log2_eq:
  assumes "2 powr of_int e \<le> \<bar>x\<bar>" "\<bar>x\<bar> < 2 powr (of_int e + 1)"
  shows "\<lfloor>log 2 \<bar>x\<bar>\<rfloor> = e"
proof -
  have pos: "0 < \<bar>x\<bar>" using assms(1) by (smt (verit) powr_gt_zero)
  have "of_int e \<le> log 2 \<bar>x\<bar>"
    using assms(1) pos by (simp add: le_log_iff)
  moreover have "log 2 \<bar>x\<bar> < of_int e + 1"
    using assms(2) pos by (simp add: log_less_iff)
  ultimately show ?thesis by linarith
qed

lemma fl32_eval:
  assumes "2 powr of_int e \<le> \<bar>x\<bar>" "\<bar>x\<bar> < 2 powr (of_int e + 1)" "- 126 \<le> e"
  shows "fl32 x =
     (let u = 2 powr (of_int e - 23); r = of_int (round_even (x / u)) * u
      in if 2 ^ 128 \<le> \<bar>r\<bar> then (if 0 < x then PInf else MInf) else Fin r)"
proof -
  have "x \<noteq> 0" using assms(1) by (smt (verit) powr_gt_zero)
  moreover have "max \<lfloor>log 2 \<bar>x\<bar>\<rfloor> (- 126) = e"
    using floor_log2_eq [OF assms(1,2)] assms(3) by simp
  ultimately show ?thesis by (simp add: fl32_def Let_def)
qed

lemma fl32_representable:
  assumes "2 powr of_int e \<le> \<bar>x\<bar>" "\<bar>x\<bar> < 2 powr (of_int e + 1)" "- 126 \<le> e"
    and "x / 2 powr (of_int e - 23) = of_int m" and "\<bar>x\<bar> < 2 ^ 128"
  shows "fl32 x = Fin x"
proof -
  have "of_int m * 2 powr (of_int e - 23) = x"
    using assms(4) by (simp add: field_simps)
  then show ?thesis
    using assms(5) by (simp add: fl32_eval [OF assms(1-3)] Let_def assms(4))
qed

lemma fl32_int:
  assumes "\<bar>n\<bar> \<le> 2 ^ 24"
  shows "fl32 (of_int n) = Fin (of_int n)"
proof (cases "n = 0")
  case True
  then show ?thesis by (simp add: fl32_def)
next
  case False
  define x :: real where "x = of_int n"
  define e where "e = \<lfloor>log 2 \<bar>x\<bar>\<rfloor>"
  have x0: "x \<noteq> 0" using False by (simp add: x_def)
  have ax: "\<bar>x\<bar> = of_int \<bar>n\<bar>" by (simp add: x_def)
  have "1 \<le> \<bar>n\<bar>" using False by linarith
  then have x1: "1 \<le> \<bar>x\<bar>" unfolding ax by linarith
  have "(of_int \<bar>n\<bar> :: real) \<le> of_int (2 ^ 24)" using assms by (simp only: of_int_le_iff)
  then have x24: "\<bar>x\<bar> \<le> 2 ^ 24" unfolding ax by simp
  have lo: "2 powr of_int e \<le> \<bar>x\<bar>" and hi: "\<bar>x\<bar> < 2 powr (of_int e + 1)"
    using floor_log2_bounds [OF x0] by (simp_all add: e_def)
  have e0: "0 \<le> e" unfolding e_def using x1 by simp
  have "(2::real) powr of_int e \<le> 2 powr of_int 24" using lo x24 by simp
  then have "real_of_int e \<le> of_int 24" by (subst (asm) powr_le_cancel_iff) simp_all
  then have e24: "e \<le> 24" by (simp only: of_int_le_iff)
  have "\<exists>m. x / 2 powr (of_int e - 23) = of_int m"
  proof (cases "e \<le> 23")
    case True
    then obtain k where k: "23 - e = int k" using nonneg_int_cases [of "23 - e"] by auto
    have "x / 2 powr (of_int e - 23) = x * 2 powr (of_int (23 - e))"
      by (simp add: powr_diff field_simps)
    also have "\<dots> = x * 2 ^ k" unfolding k by (simp add: powr_realpow)
    also have "\<dots> = of_int (n * 2 ^ k)" by (simp add: x_def)
    finally show ?thesis by blast
  next
    case False
    then have e: "e = 24" using e24 by simp
    have "\<bar>x\<bar> = 2 ^ 24" using lo x24 unfolding e by simp
    then have "(of_int \<bar>n\<bar> :: real) = of_int (2 ^ 24)" unfolding ax by simp
    then have "\<bar>n\<bar> = 2 ^ 24" by (simp only: of_int_eq_iff)
    then have "n = 2 ^ 24 \<or> n = - (2 ^ 24)" by linarith
    then have "x / 2 powr (of_int e - 23) = of_int (n div 2)"
      unfolding e x_def by auto
    then show ?thesis by blast
  qed
  then obtain m where m: "x / 2 powr (of_int e - 23) = of_int m" by blast
  have "fl32 x = Fin x"
    by (rule fl32_representable [OF lo hi _ m]) (use e0 x24 in simp_all)
  then show ?thesis by (simp add: x_def)
qed

lemma fl32_1e8: "fl32 100000000 = Fin 100000000" "fl32 (- 100000000) = Fin (- 100000000)"
  by (rule fl32_representable [where e = 26 and m = 12500000]; simp)
     (rule fl32_representable [where e = 26 and m = "- 12500000"]; simp)

lemma fl32_1e8_plus_1: "fl32 100000001 = Fin 100000000"
  by (subst fl32_eval [where e = 26]) (simp_all add: round_even_def)

lemma fl32_1e8_minus_1: "fl32 (- 99999999) = Fin (- 100000000)"
  by (subst fl32_eval [where e = 26]) (simp_all add: round_even_def)

lemma f32_add_int:
  "\<bar>a + b\<bar> \<le> 2 ^ 24 \<Longrightarrow> f32_add (fin_int a) (fin_int b) = fin_int (a + b)"
  using fl32_int [of "a + b"] by (simp add: f32_add_def fin_int_def)

lemma f32_mul_int:
  "\<bar>a * b\<bar> \<le> 2 ^ 24 \<Longrightarrow> f32_mul (fin_int a) (fin_int b) = fin_int (a * b)"
  using fl32_int [of "a * b"] by (simp add: f32_mul_def fin_int_def)

lemma fin_int_inj: "fin_int a = fin_int b \<longleftrightarrow> a = b"
  by (simp add: fin_int_def)

lemma abs_sum_list_le: "\<bar>sum_list ns\<bar> \<le> sum_list (map abs ns)" for ns :: "int list"
  by (induction ns) auto

lemma sum_list_abs_nonneg: "0 \<le> sum_list (map abs ns)" for ns :: "int list"
  by (induction ns) auto

lemma f32_sums_exact:
  assumes "f32_sums xs v" "xs = map fin_int ns" "sum_list (map abs ns) \<le> 2 ^ 24"
  shows "v = fin_int (sum_list ns)"
  using assms
proof (induction xs v arbitrary: ns rule: f32_sums.induct)
  case empty
  then show ?case by (simp add: fin_int_def)
next
  case (single x)
  then show ?case by (cases ns) auto
next
  case (split xs a ys b)
  from split.prems(1) obtain ns1 ns2 where ns: "ns = ns1 @ ns2" "xs = map fin_int ns1" "ys = map fin_int ns2"
    by (auto simp: append_eq_map_conv)
  have b1: "sum_list (map abs ns1) \<le> 2 ^ 24" and b2: "sum_list (map abs ns2) \<le> 2 ^ 24"
    using split.prems(2) sum_list_abs_nonneg [of ns1] sum_list_abs_nonneg [of ns2]
    unfolding ns(1) by simp_all
  have a: "a = fin_int (sum_list ns1)" using split.IH(1) [OF ns(2) b1] .
  have b: "b = fin_int (sum_list ns2)" using split.IH(2) [OF ns(3) b2] .
  have "\<bar>sum_list ns1 + sum_list ns2\<bar> \<le> 2 ^ 24"
    using split.prems(2) abs_sum_list_le [of ns1] abs_sum_list_le [of ns2] unfolding ns(1) by simp
  then show ?case unfolding a b ns(1) by (simp add: f32_add_int)
next
  case (swap xs x y ys a)
  from swap.prems(1) obtain ns1 ny nx ns2 where ns: "ns = ns1 @ ny # nx # ns2"
    and eq: "xs = map fin_int ns1" "y = fin_int ny" "x = fin_int nx" "ys = map fin_int ns2"
    by (auto simp: append_eq_map_conv Cons_eq_map_conv)
  have "a = fin_int (sum_list (ns1 @ nx # ny # ns2))"
    by (rule swap.IH) (use swap.prems(2) in \<open>simp_all add: ns eq\<close>)
  then show ?case by (simp add: ns add.commute add.left_commute)
qed

lemma f32_sums_fold:
  "f32_sums ys acc \<Longrightarrow> f32_sums (ys @ xs) (fold (\<lambda>v acc. f32_add acc v) xs acc)"
proof (induction xs arbitrary: ys acc)
  case Nil
  then show ?case by simp
next
  case (Cons x xs)
  have "f32_sums (ys @ [x]) (f32_add acc x)"
    by (rule f32_sums.split [OF Cons.prems f32_sums.single])
  from Cons.IH [OF this] show ?case by simp
qed

lemma f32_reduction_f32_sum: "f32_reduction f32_sum"
  unfolding f32_reduction_def f32_sum_def
  using f32_sums_fold [OF f32_sums.empty] by simp

lemma f32_reduction_exact:
  assumes "f32_reduction red" "sum_list (map abs ns) \<le> 2 ^ 24"
  shows "red (map fin_int ns) = fin_int (sum_list ns)"
  using f32_sums_exact [OF _ refl assms(2)] assms(1) by (simp add: f32_reduction_def)

section \<open>Facts about the checked primitives and loops\<close>

lemma is_pow2_pos: "is_pow2 n \<Longrightarrow> 0 < n"
  by (simp add: is_pow2_def)

lemma tl_arange_pow2: "is_pow2 B \<Longrightarrow> tl_arange lo (lo + B) = Inr (arange lo (lo + B))"
  by (simp add: tl_arange_def is_pow2_def)

lemma tl_arange_0_pow2: "is_pow2 B \<Longrightarrow> tl_arange 0 B = Inr (arange 0 B)"
  using tl_arange_pow2 [of B 0] by simp

lemma tl_range_pos: "0 < step \<Longrightarrow> tl_range start stop step = Inr (trange start stop step)"
  by (simp add: tl_range_def)

lemma fold_res_Inr_fold: "fold_res (\<lambda>k s. Inr (G k s)) ks s = Inr (fold G ks s)"
  by (induction ks arbitrary: s) simp_all

lemma fin_int_0: "Fin 0 = fin_int 0"
  by (simp add: fin_int_def)

lemma fin_int_if: "(if c then fin_int u else fin_int v) = fin_int (if c then u else v)"
  by simp

lemma abs_if_0: "\<bar>if c then u else 0\<bar> = (if c then \<bar>u\<bar> else (0::int))"
  by simp

lemma fold_pointwise1:
  "fold (\<lambda>k s a. F k a (s a)) ks s = (\<lambda>a. fold (\<lambda>k. F k a) ks (s a))"
  by (induction ks arbitrary: s) simp_all

lemma fold_pointwise3:
  "fold (\<lambda>k s a b c. F k a b c (s a b c)) ks s = (\<lambda>a b c. fold (\<lambda>k. F k a b c) ks (s a b c))"
  by (induction ks arbitrary: s) simp_all

lemma launch_res_fold:
  assumes "\<And>pid. pid \<in> set ps \<Longrightarrow> body pid = Inr (w pid)"
  shows "fold_res (\<lambda>pid ws. bind_res (body pid) (\<lambda>w. Inr (ws @ w))) ps acc
           = Inr (acc @ concat (map w ps))"
  using assms by (induction ps arbitrary: acc) simp_all

lemma launch_res_Inr:
  assumes "\<And>pid. pid \<in> set (grid g0 g1 g2) \<Longrightarrow> body pid = Inr (w pid)"
  shows "launch_res body g0 g1 g2 = Inr (launch w g0 g1 g2)"
  unfolding launch_res_def launch_def using launch_res_fold [of "grid g0 g1 g2" body w "[]"] assms
  by simp

text \<open>A running float32 sum of reductions of integers is exact while the magnitudes
  add up to at most \<open>2^24\<close>.\<close>

lemma fold_f32_exact:
  assumes "f32_reduction red"
  shows "\<bar>A\<bar> + sum_list (map (\<lambda>k. sum_list (map abs (C k))) ks) \<le> 2 ^ 24 \<Longrightarrow>
    fold (\<lambda>k v. f32_add v (red (map fin_int (C k)))) ks (fin_int A)
      = fin_int (A + sum_list (map (\<lambda>k. sum_list (C k)) ks))"
proof (induction ks arbitrary: A)
  case Nil
  then show ?case by simp
next
  case (Cons k ks)
  have rest: "0 \<le> sum_list (map (\<lambda>k. sum_list (map abs (C k))) ks)"
    by (rule sum_list_nonneg) (auto simp: sum_list_abs_nonneg)
  have a0: "0 \<le> \<bar>A\<bar>" by simp
  have ck: "sum_list (map abs (C k)) \<le> 2 ^ 24"
    using Cons.prems rest a0 by simp
  have r: "red (map fin_int (C k)) = fin_int (sum_list (C k))"
    by (rule f32_reduction_exact [OF assms ck])
  have le: "\<bar>A + sum_list (C k)\<bar> \<le> \<bar>A\<bar> + sum_list (map abs (C k))"
    using abs_sum_list_le [of "C k"] by linarith
  have s: "f32_add (fin_int A) (fin_int (sum_list (C k))) = fin_int (A + sum_list (C k))"
    by (rule f32_add_int) (use le Cons.prems rest in simp)
  have "\<bar>A + sum_list (C k)\<bar> + sum_list (map (\<lambda>k. sum_list (map abs (C k))) ks) \<le> 2 ^ 24"
    using le Cons.prems by simp
  from Cons.IH [OF this] show ?case by (simp add: r s add.assoc)
qed

text \<open>Float32 products of integers, and their chunked sum.\<close>

lemma abs_elem_le_sum_list:
  fixes f :: "'a \<Rightarrow> int"
  shows "l \<in> set ls \<Longrightarrow> \<bar>f l\<bar> \<le> sum_list (map (\<lambda>l. \<bar>f l\<bar>) ls)"
proof (induction ls)
  case Nil
  then show ?case by simp
next
  case (Cons a ls)
  have "0 \<le> sum_list (map (\<lambda>l. \<bar>f l\<bar>) ls)"
    by (rule sum_list_nonneg) auto
  with Cons show ?case by auto
qed

lemma f32_mul_map:
  assumes "\<And>t. t \<in> set ts \<Longrightarrow> \<bar>p t * q t\<bar> \<le> 2 ^ 24"
  shows "map (\<lambda>t. f32_mul (fin_int (p t)) (fin_int (q t))) ts
           = map fin_int (map (\<lambda>t. p t * q t) ts)"
  using assms by (simp add: f32_mul_int)

lemma f32_dot_exact:
  assumes "f32_reduction red" "sum_list (map (\<lambda>l. \<bar>p l * q l\<bar>) ls) \<le> 2 ^ 24"
  shows "red (map (\<lambda>l. f32_mul (fin_int (p l)) (fin_int (q l))) ls)
           = fin_int (sum_list (map (\<lambda>l. p l * q l) ls))"
proof -
  have "\<bar>p l * q l\<bar> \<le> 2 ^ 24" if "l \<in> set ls" for l
    using abs_elem_le_sum_list [OF that, of "\<lambda>l. p l * q l"] assms(2) by simp
  then have m: "map (\<lambda>l. f32_mul (fin_int (p l)) (fin_int (q l))) ls
           = map fin_int (map (\<lambda>l. p l * q l) ls)"
    by (rule f32_mul_map)
  have "sum_list (map abs (map (\<lambda>l. p l * q l) ls)) \<le> 2 ^ 24"
    using assms(2) by (simp add: comp_def)
  then show ?thesis
    unfolding m by (rule f32_reduction_exact [OF assms(1)])
qed

lemma chunked_f32_dot:
  assumes "f32_reduction red" "0 < B" "sum_list (map (\<lambda>l. \<bar>p l * q l\<bar>) [0..<T]) \<le> 2 ^ 24"
    and A: "\<And>s t. A s t = fin_int (if s + t < T then p (s + t) else 0)"
    and B: "\<And>s t. Bt s t = fin_int (if s + t < T then q (s + t) else 0)"
  shows "fold (\<lambda>s v. f32_add v (red (map (\<lambda>t. f32_mul (A s t) (Bt s t)) [0..<B])))
           (trange 0 T B) (fin_int 0) = fin_int (sum_list (map (\<lambda>l. p l * q l) [0..<T]))"
proof -
  define C where "C s = map (\<lambda>t. if s + t < T then p (s + t) * q (s + t) else 0) [0..<B]" for s
  have small: "\<bar>p l * q l\<bar> \<le> 2 ^ 24" if "l < T" for l
    using abs_elem_le_sum_list [of l "[0..<T]" "\<lambda>l. p l * q l"] that assms(3) by simp
  have chunk: "map (\<lambda>t. f32_mul (A s t) (Bt s t)) [0..<B] = map fin_int (C s)" for s
    unfolding A B C_def map_map comp_def
  proof (rule map_cong [OF refl])
    fix t
    show "f32_mul (fin_int (if s + t < T then p (s + t) else 0))
            (fin_int (if s + t < T then q (s + t) else 0))
          = fin_int (if s + t < T then p (s + t) * q (s + t) else 0)"
      using small [of "s + t"] by (cases "s + t < T") (simp_all add: f32_mul_int)
  qed
  have bound: "\<bar>0\<bar> + sum_list (map (\<lambda>s. sum_list (map abs (C s))) (trange 0 T B)) \<le> 2 ^ 24"
    unfolding C_def using chunked_sum [OF assms(2), of T "\<lambda>l. \<bar>p l * q l\<bar>"] assms(3)
    by (simp add: comp_def abs_if_0)
  have total: "sum_list (map (\<lambda>s. sum_list (C s)) (trange 0 T B))
      = sum_list (map (\<lambda>l. p l * q l) [0..<T])"
    unfolding C_def by (rule chunked_sum [OF assms(2)])
  show ?thesis
    unfolding chunk fold_f32_exact [OF assms(1) bound] total by simp
qed

section \<open>Puzzle 7: the long sum and the row sums\<close>

text \<open>The chunks of a row, masked at both bounds, add up to the row.\<close>

lemma sum_kernel_chunks:
  assumes "0 < B1"
  shows "sum_list (map (\<lambda>s. sum_list (map (\<lambda>b. if i < N0 \<and> s + b < T then f (i * T + (s + b)) else 0) [0..<B1]))
           (trange 0 T B1)) = (if i < N0 then sum_list (map (\<lambda>j. f (i * T + j)) [0..<T]) else (0::int))"
  using chunked_sum [OF assms, of T "\<lambda>j. f (i * T + j)"] by simp

lemma sum_kernel_eq:
  assumes "f32_reduction red" "is_pow2 B0" "is_pow2 B1"
    and "\<And>i. i < N0 \<Longrightarrow> sum_list (map (\<lambda>j. \<bar>xi (i * T + j)\<bar>) [0..<T]) \<le> 2 ^ 24"
  shows "sum_kernel red (int_buffer xi) N0 N1 T B0 B1 pid =
     Inr (store1 B0 (\<lambda>a. fst pid * B0 + a)
       (\<lambda>a. fin_int (if fst pid * B0 + a < N0
            then sum_list (map (\<lambda>j. xi ((fst pid * B0 + a) * T + j)) [0..<T]) else 0))
       (\<lambda>a. fst pid * B0 + a < N0))"
proof -
  define C where "C a s = map (\<lambda>b. if fst pid * B0 + a < N0 \<and> s + b < T
      then xi ((fst pid * B0 + a) * T + (s + b)) else 0) [0..<B1]" for a s
  have B1: "0 < B1" by (rule is_pow2_pos [OF assms(3)])
  have run: "sum_kernel red (int_buffer xi) N0 N1 T B0 B1 pid =
     Inr (store1 B0 (\<lambda>a. fst pid * B0 + a)
       (\<lambda>a. fold (\<lambda>s v. f32_add v (red (map fin_int (C a s)))) (trange 0 T B1) (fin_int 0))
       (\<lambda>a. fst pid * B0 + a < N0))"
    unfolding sum_kernel_def Let_def C_def
      fold_pointwise1 [where F = "\<lambda>s a v. f32_add v (red (map fin_int (map (\<lambda>b.
        if fst pid * B0 + a < N0 \<and> s + b < T then xi ((fst pid * B0 + a) * T + (s + b)) else 0)
        [0..<B1])))", symmetric]
    by (simp add: tl_arange_0_pow2 [OF assms(2)] tl_arange_0_pow2 [OF assms(3)]
        tl_range_pos [OF B1] fold_res_Inr_fold program_id_def arange_def
        expand_dims_1_def expand_dims_0_def load2_def reduce_axis1_def int_buffer_def
        fin_int_if fin_int_0 comp_def)
  have bound: "\<bar>0\<bar> + sum_list (map (\<lambda>s. sum_list (map abs (C a s))) (trange 0 T B1)) \<le> 2 ^ 24" for a
  proof -
    have "sum_list (map (\<lambda>s. sum_list (map abs (C a s))) (trange 0 T B1))
        = (if fst pid * B0 + a < N0
           then sum_list (map (\<lambda>j. \<bar>xi ((fst pid * B0 + a) * T + j)\<bar>) [0..<T]) else 0)"
      unfolding C_def
      using sum_kernel_chunks [OF B1, of "fst pid * B0 + a" N0 T "\<lambda>p. \<bar>xi p\<bar>"]
      by (simp add: comp_def abs_if_0)
    then show ?thesis using assms(4) [of "fst pid * B0 + a"] by simp
  qed
  have total: "sum_list (map (\<lambda>s. sum_list (C a s)) (trange 0 T B1))
        = (if fst pid * B0 + a < N0
           then sum_list (map (\<lambda>j. xi ((fst pid * B0 + a) * T + j)) [0..<T]) else 0)" for a
    unfolding C_def using sum_kernel_chunks [OF B1, of "fst pid * B0 + a" N0 T xi] by simp
  show ?thesis
    unfolding run fold_f32_exact [OF assms(1) bound] total by simp
qed

text \<open>On such inputs every reduction gives the exact row sum.\<close>

lemma sum_spec_exact:
  assumes "f32_reduction red"
    and "\<And>i. i < N0 \<Longrightarrow> sum_list (map (\<lambda>j. \<bar>xi (i * T + j)\<bar>) [0..<T]) \<le> 2 ^ 24"
  shows "sum_spec red (int_buffer xi) N0 T
     = map (\<lambda>i. fin_int (sum_list (map (\<lambda>j. xi (i * T + j)) [0..<T]))) [0..<N0]"
proof -
  have "red (map (\<lambda>j. fin_int (xi (i * T + j))) [0..<T])
      = fin_int (sum_list (map (\<lambda>j. xi (i * T + j)) [0..<T]))" if "i < N0" for i
    using f32_reduction_exact [OF assms(1), of "map (\<lambda>j. xi (i * T + j)) [0..<T]"] assms(2) [OF that]
    by (simp add: comp_def)
  then show ?thesis by (simp add: sum_spec_def int_buffer_def)
qed

text \<open>Claim C6, for the inputs on which float32 addition is exact: for every input matrix
  of shape \<open>[N0, T]\<close> that holds integers whose magnitudes add up to at most \<open>2^24\<close> in
  each row, all block sizes \<open>B0\<close> and \<open>B1\<close> that are powers of two (\<open>tl.arange\<close> accepts no
  other) and all float32 reductions \<open>red\<close> of \<open>vals.sum(axis=1)\<close> and \<open>red'\<close> of torch's
  \<open>x.sum(1)\<close>, the launch of the long-sum kernel, which streams the reduced axis in chunks
  of \<open>B1\<close> with loads masked at the bound \<open>N0\<close> of the kept axis and the bound \<open>T\<close> of
  the streamed axis, returns and leaves in the output the per-row sums of \<open>sum_spec\<close>.\<close>

theorem sum_kernel_correct:
  assumes "f32_reduction red" "f32_reduction red'" "is_pow2 B0" "is_pow2 B1" "0 < N1"
    and "\<forall>i<N0. sum_list (map (\<lambda>j. \<bar>xi (i * T + j)\<bar>) [0..<T]) \<le> 2 ^ 24"
  shows "\<exists>ws. launch_res (sum_kernel red (int_buffer xi) N0 N1 T B0 B1)
            (cdiv N0 B0) (cdiv N1 B1) 1 = Inr ws
          \<and> map (commit ws z) [0..<N0] = sum_spec red' (int_buffer xi) N0 T"
proof -
  define w where "w pid = store1 B0 (\<lambda>a. fst pid * B0 + a)
       (\<lambda>a. fin_int (if fst pid * B0 + a < N0
            then sum_list (map (\<lambda>j. xi ((fst pid * B0 + a) * T + j)) [0..<T]) else 0))
       (\<lambda>a. fst pid * B0 + a < N0)" for pid :: "nat \<times> nat \<times> nat"
  have bound: "sum_list (map (\<lambda>j. \<bar>xi (i * T + j)\<bar>) [0..<T]) \<le> 2 ^ 24" if "i < N0" for i
    using assms(6) that by simp
  have B0: "0 < B0" and B1: "0 < B1"
    using assms(3,4) by (simp_all add: is_pow2_pos)
  have body: "sum_kernel red (int_buffer xi) N0 N1 T B0 B1 pid = Inr (w pid)" for pid
    unfolding w_def by (rule sum_kernel_eq [OF assms(1,3,4) bound])
  have run: "launch_res (sum_kernel red (int_buffer xi) N0 N1 T B0 B1)
            (cdiv N0 B0) (cdiv N1 B1) 1 = Inr (launch w (cdiv N0 B0) (cdiv N1 B1) 1)"
    by (rule launch_res_Inr) (rule body)
  have val: "commit (launch w (cdiv N0 B0) (cdiv N1 B1) 1) z i
        = fin_int (sum_list (map (\<lambda>j. xi (i * T + j)) [0..<T]))" if i: "i < N0" for i
  proof (rule commit_launch_value [where pid = "(i div B0, 0, 0)"])
    show "(i div B0, 0, 0) \<in> set (grid (cdiv N0 B0) (cdiv N1 B1) 1)"
      using assms(5) B0 B1 i by (simp add: set_grid div_less_cdiv cdiv_pos)
    show "(i, fin_int (sum_list (map (\<lambda>j. xi (i * T + j)) [0..<T]))) \<in> set (w (i div B0, 0, 0))"
      unfolding w_def set_store1 using i B0 by (auto intro!: exI [of _ "i mod B0"])
    show "snd e = fin_int (sum_list (map (\<lambda>j. xi (i * T + j)) [0..<T]))"
      if "e \<in> set (w pid')" "fst e = i" for pid' e
      using that i unfolding w_def set_store1 by auto
  qed
  have spec: "sum_spec red' (int_buffer xi) N0 T
      = map (\<lambda>i. fin_int (sum_list (map (\<lambda>j. xi (i * T + j)) [0..<T]))) [0..<N0]"
    by (rule sum_spec_exact [OF assms(2)]) (rule bound)
  have "map (commit (launch w (cdiv N0 B0) (cdiv N1 B1) 1) z) [0..<N0]
      = sum_spec red' (int_buffer xi) N0 T"
    unfolding spec using val by simp
  with run show ?thesis by blast
qed

text \<open>The scenario of claim C6: a \<open>4 \<times> 200\<close> matrix of ones with \<open>B0 = 1\<close> and
  \<open>B1 = 32\<close> (200 is not a multiple of 32) gives 200.0 in each of the four outputs.\<close>

lemma ones_row_sum:
  assumes "i < 4"
  shows "map (\<lambda>j. iptr_of (replicate 800 1) (i * 200 + j)) [0..<200] = replicate 200 1"
proof -
  have "map (\<lambda>j. iptr_of (replicate 800 1) (i * 200 + j)) [0..<200] = map (\<lambda>j. 1) [0..<200]"
    using assms by (intro map_cong) (auto simp: iptr_of_def)
  then show ?thesis by (simp add: map_replicate_const del: upt_rec_numeral)
qed

theorem sum_kernel_correct_witness:
  "\<exists>ws. launch_res (sum_kernel f32_sum (int_buffer (iptr_of (replicate 800 1))) 4 32 200 1 32)
          (cdiv 4 1) (cdiv 32 32) 1 = Inr ws
        \<and> map (commit ws (fptr_of [0, 0, 0, 0])) [0..<4] = [Fin 200, Fin 200, Fin 200, Fin 200]"
proof -
  have p1: "is_pow2 1" and p32: "is_pow2 32"
    by (simp_all add: is_pow2_def)
  have bound: "\<forall>i<4. sum_list (map (\<lambda>j. \<bar>iptr_of (replicate 800 1) (i * 200 + j)\<bar>) [0..<200]) \<le> 2 ^ 24"
  proof (intro allI impI)
    fix i :: nat assume i: "i < 4"
    have "map (\<lambda>j. \<bar>iptr_of (replicate 800 1) (i * 200 + j)\<bar>) [0..<200]
        = map abs (map (\<lambda>j. iptr_of (replicate 800 1) (i * 200 + j)) [0..<200])"
      by (simp add: comp_def del: upt_rec_numeral)
    then show "sum_list (map (\<lambda>j. \<bar>iptr_of (replicate 800 1) (i * 200 + j)\<bar>) [0..<200]) \<le> 2 ^ 24"
      unfolding ones_row_sum [OF i] by (simp add: sum_list_replicate del: upt_rec_numeral)
  qed
  have "sum_spec f32_sum (int_buffer (iptr_of (replicate 800 1))) 4 200
      = map (\<lambda>i. fin_int (sum_list (map (\<lambda>j. iptr_of (replicate 800 1) (i * 200 + j)) [0..<200]))) [0..<4]"
    by (rule sum_spec_exact [OF f32_reduction_f32_sum]) (use bound in simp)
  also have "\<dots> = map (\<lambda>i. fin_int 200) [0..<4]"
    by (intro map_cong [OF refl]) (simp add: ones_row_sum sum_list_replicate del: upt_rec_numeral)
  also have "\<dots> = [Fin 200, Fin 200, Fin 200, Fin 200]"
    by (simp add: upt_conv_Cons fin_int_def)
  finally show ?thesis
    using sum_kernel_correct [OF f32_reduction_f32_sum f32_reduction_f32_sum p1 p32 _ bound,
        of 32 "fptr_of [0, 0, 0, 0]"]
    by simp
qed

text \<open>Claim C6 as stated, for every input matrix and every chunk size, fails in float32:
  on the \<open>1 \<times> 4\<close> matrix \<open>[[1e8, 1, -1e8, 1]]\<close> with \<open>B0 = 1\<close> and \<open>B1 = 2\<close>, adding from
  left to right, each chunk sum \<open>1e8 + 1\<close> and \<open>-1e8 + 1\<close> rounds the 1 away, so the
  kernel stores 0.0, where the same reduction over the whole row gives \<open>sum_spec\<close> 1.0.\<close>

theorem sum_kernel_rounding_counterexample:
  "launch_res (sum_kernel f32_sum (fptr_of [100000000, 1, - 100000000, 1]) 1 2 4 1 2)
       (cdiv 1 1) (cdiv 2 2) 1 = Inr [(0, Fin 0)]
   \<and> sum_spec f32_sum (fptr_of [100000000, 1, - 100000000, 1]) 1 4 = [Fin 1]"
proof -
  have one: "fl32 1 = Fin 1" using fl32_int [of 1] by simp
  have zero: "fl32 0 = Fin 0" by (simp add: fl32_def)
  have k: "sum_kernel f32_sum (fptr_of [100000000, 1, - 100000000, 1]) 1 2 4 1 2 (0, 0, 0)
      = Inr [(0, Fin 0)]"
    by (simp add: sum_kernel_def tl_arange_def tl_range_def trange_def cdiv_def upt_conv_Cons
        program_id_def arange_def expand_dims_1_def expand_dims_0_def load2_def
        reduce_axis1_def f32_sum_def f32_add_def fptr_of_def store1_def
        fl32_1e8 fl32_1e8_plus_1 fl32_1e8_minus_1 zero)
  have s: "sum_spec f32_sum (fptr_of [100000000, 1, - 100000000, 1]) 1 4 = [Fin 1]"
    by (simp add: sum_spec_def upt_conv_Cons f32_sum_def f32_add_def fptr_of_def
        fl32_1e8 fl32_1e8_plus_1 one zero)
  show ?thesis
    using k s by (simp add: launch_res_def grid_def cdiv_def)
qed

section \<open>Puzzle 11: the tiled product and the batched product\<close>

text \<open>An instance of the kernel, on integers whose products add up exactly: positions of
  a tile past the row, column, batch or contraction extent are loaded as 0 and add
  nothing to the accumulation.\<close>

lemma dot_kernel_eq:
  assumes "f32_reduction red" "is_pow2 B0" "is_pow2 B1" "is_pow2 B2" "is_pow2 B_MID"
    and bound: "\<And>i j k. i < N2 \<Longrightarrow> j < N1 \<Longrightarrow> k < N0 \<Longrightarrow>
      sum_list (map (\<lambda>l. \<bar>xi (i * N1 * MID + j * MID + l) * yi (i * MID * N0 + l * N0 + k)\<bar>)
        [0..<MID]) \<le> 2 ^ 24"
  shows "dot_kernel red (int_buffer xi) (int_buffer yi) N0 N1 N2 MID B0 B1 B2 B_MID pid =
     Inr (store3 B2 B1 B0
       (\<lambda>a b c. (snd (snd pid) * B2 + a) * N1 * N0 + (fst (snd pid) * B1 + b) * N0
          + (fst pid * B0 + c))
       (\<lambda>a b c. fin_int (if snd (snd pid) * B2 + a < N2 \<and> fst (snd pid) * B1 + b < N1
            \<and> fst pid * B0 + c < N0
          then sum_list (map (\<lambda>l. xi ((snd (snd pid) * B2 + a) * N1 * MID
                    + (fst (snd pid) * B1 + b) * MID + l)
                  * yi ((snd (snd pid) * B2 + a) * MID * N0 + l * N0 + (fst pid * B0 + c)))
                [0..<MID])
          else 0))
       (\<lambda>a b c. snd (snd pid) * B2 + a < N2 \<and> fst (snd pid) * B1 + b < N1
          \<and> fst pid * B0 + c < N0))"
proof -
  define ib where "ib a = snd (snd pid) * B2 + a" for a
  define im where "im b = fst (snd pid) * B1 + b" for b
  define ic where "ic c = fst pid * B0 + c" for c
  define Ak where "Ak a b s t = (if ib a < N2 \<and> im b < N1 \<and> s + t < MID
      then fin_int (xi (ib a * N1 * MID + im b * MID + (s + t))) else Fin 0)" for a b s t
  define Bk where "Bk a c s t = (if ib a < N2 \<and> s + t < MID \<and> ic c < N0
      then fin_int (yi (ib a * MID * N0 + (s + t) * N0 + ic c)) else Fin 0)" for a c s t
  define p where "p a b l = (if ib a < N2 \<and> im b < N1 then xi (ib a * N1 * MID + im b * MID + l) else 0)"
    for a b l
  define q where "q a c l = (if ib a < N2 \<and> ic c < N0 then yi (ib a * MID * N0 + l * N0 + ic c) else 0)"
    for a c l
  have BM: "0 < B_MID" by (rule is_pow2_pos [OF assms(5)])
  have run: "dot_kernel red (int_buffer xi) (int_buffer yi) N0 N1 N2 MID B0 B1 B2 B_MID pid =
     Inr (store3 B2 B1 B0 (\<lambda>a b c. ib a * N1 * N0 + im b * N0 + ic c)
       (\<lambda>a b c. fold (\<lambda>s v. f32_add v (red (map (\<lambda>t. f32_mul (Ak a b s t) (Bk a c s t)) [0..<B_MID])))
          (trange 0 MID B_MID) (fin_int 0))
       (\<lambda>a b c. ib a < N2 \<and> im b < N1 \<and> ic c < N0))"
    unfolding dot_kernel_def Let_def
      fold_pointwise3 [where F = "\<lambda>s a b c v. f32_add v
        (red (map (\<lambda>t. f32_mul (Ak a b s t) (Bk a c s t)) [0..<B_MID]))", symmetric]
    by (simp add: tl_arange_0_pow2 [OF assms(2)] tl_arange_0_pow2 [OF assms(3)]
        tl_arange_0_pow2 [OF assms(4)] tl_arange_0_pow2 [OF assms(5)]
        tl_range_pos [OF BM] fold_res_Inr_fold program_id_def arange_def
        expand_dims_12_def expand_dims_02_def expand_dims_01_def load3_def dot3_def
        int_buffer_def fin_int_0 Ak_def Bk_def ib_def im_def ic_def cong: if_cong)
  have pq: "sum_list (map (\<lambda>l. \<bar>p a b l * q a c l\<bar>) [0..<MID]) \<le> 2 ^ 24" for a b c
  proof (cases "ib a < N2 \<and> im b < N1 \<and> ic c < N0")
    case True
    then show ?thesis using bound [of "ib a" "im b" "ic c"] by (simp add: p_def q_def)
  next
    case False
    then have z: "\<bar>p a b l * q a c l\<bar> = 0" for l by (auto simp: p_def q_def)
    show ?thesis unfolding z by simp
  qed
  have tile: "fold (\<lambda>s v. f32_add v (red (map (\<lambda>t. f32_mul (Ak a b s t) (Bk a c s t)) [0..<B_MID])))
          (trange 0 MID B_MID) (fin_int 0)
      = fin_int (sum_list (map (\<lambda>l. p a b l * q a c l) [0..<MID]))" for a b c
    by (rule chunked_f32_dot [OF assms(1) BM pq])
       (simp_all add: Ak_def Bk_def p_def q_def fin_int_def)
  have val: "sum_list (map (\<lambda>l. p a b l * q a c l) [0..<MID])
      = (if ib a < N2 \<and> im b < N1 \<and> ic c < N0
         then sum_list (map (\<lambda>l. xi (ib a * N1 * MID + im b * MID + l)
                  * yi (ib a * MID * N0 + l * N0 + ic c)) [0..<MID])
         else 0)" for a b c
  proof (cases "ib a < N2 \<and> im b < N1 \<and> ic c < N0")
    case True
    then show ?thesis by (simp add: p_def q_def)
  next
    case False
    then have z: "p a b l * q a c l = 0" for l by (auto simp: p_def q_def)
    show ?thesis unfolding z using False by auto
  qed
  show ?thesis
    unfolding run tile val unfolding ib_def im_def ic_def by (rule refl)
qed

text \<open>On such inputs the reference is the exact product.\<close>

lemma dot_spec_exact:
  assumes "f32_reduction red"
    and "sum_list (map (\<lambda>l. \<bar>xi (i * N1 * MID + j * MID + l) * yi (i * MID * N0 + l * N0 + k)\<bar>)
        [0..<MID]) \<le> 2 ^ 24"
  shows "dot_spec red (int_buffer xi) (int_buffer yi) N0 N1 MID i j k
     = fin_int (sum_list (map (\<lambda>l. xi (i * N1 * MID + j * MID + l) * yi (i * MID * N0 + l * N0 + k))
         [0..<MID]))"
  unfolding dot_spec_def int_buffer_def by (rule f32_dot_exact [OF assms])

text \<open>Claim C1, for the inputs on which float32 arithmetic is exact: for every pair of
  input tensors that hold integers such that, for every output element, the magnitudes of
  the products along the contraction axis add up to at most \<open>2^24\<close>, every choice of block
  sizes \<open>B0\<close>, \<open>B1\<close>, \<open>B2\<close>, \<open>B_MID\<close> that are powers of two (\<open>tl.arange\<close> accepts no
  other), dividing the extents or not, and all float32 reductions \<open>red\<close> of \<open>tl.dot\<close> and
  \<open>red'\<close> of torch's \<open>@\<close>, the launch of the tiled kernel on the grid of the harness
  returns, and every element \<open>[i, j, k]\<close> of its output is the element of the reference
  batched product \<open>dot_spec\<close>, which is the exact product; the two are then within every
  tolerance. Positions of a tile past the row, column, batch or contraction extent are
  loaded as 0 and add nothing to the accumulation (lemma \<open>dot_kernel_eq\<close>).\<close>

theorem dot_kernel_correct:
  assumes "f32_reduction red" "f32_reduction red'"
    and "is_pow2 B0" "is_pow2 B1" "is_pow2 B2" "is_pow2 B_MID"
    and "\<forall>i<N2. \<forall>j<N1. \<forall>k<N0.
      sum_list (map (\<lambda>l. \<bar>xi (i * N1 * MID + j * MID + l) * yi (i * MID * N0 + l * N0 + k)\<bar>)
        [0..<MID]) \<le> 2 ^ 24"
  shows "\<exists>ws. launch_res (dot_kernel red (int_buffer xi) (int_buffer yi) N0 N1 N2 MID B0 B1 B2 B_MID)
            (cdiv N0 B0) (cdiv N1 B1) (cdiv N2 B2) = Inr ws
          \<and> (\<forall>i<N2. \<forall>j<N1. \<forall>k<N0.
               commit ws z (i * N1 * N0 + j * N0 + k)
                 = dot_spec red' (int_buffer xi) (int_buffer yi) N0 N1 MID i j k
               \<and> dot_spec red' (int_buffer xi) (int_buffer yi) N0 N1 MID i j k
                 = fin_int (sum_list (map (\<lambda>l. xi (i * N1 * MID + j * MID + l)
                     * yi (i * MID * N0 + l * N0 + k)) [0..<MID])))"
proof -
  define D where "D i j k = sum_list (map (\<lambda>l. xi (i * N1 * MID + j * MID + l)
      * yi (i * MID * N0 + l * N0 + k)) [0..<MID])" for i j k
  define w where "w pid = store3 B2 B1 B0
       (\<lambda>a b c. (snd (snd pid) * B2 + a) * N1 * N0 + (fst (snd pid) * B1 + b) * N0
          + (fst pid * B0 + c))
       (\<lambda>a b c. fin_int (if snd (snd pid) * B2 + a < N2 \<and> fst (snd pid) * B1 + b < N1
            \<and> fst pid * B0 + c < N0
          then D (snd (snd pid) * B2 + a) (fst (snd pid) * B1 + b) (fst pid * B0 + c)
          else 0))
       (\<lambda>a b c. snd (snd pid) * B2 + a < N2 \<and> fst (snd pid) * B1 + b < N1
          \<and> fst pid * B0 + c < N0)" for pid :: "nat \<times> nat \<times> nat"
  let ?body = "dot_kernel red (int_buffer xi) (int_buffer yi) N0 N1 N2 MID B0 B1 B2 B_MID"
  have bound: "sum_list (map (\<lambda>l. \<bar>xi (i * N1 * MID + j * MID + l) * yi (i * MID * N0 + l * N0 + k)\<bar>)
        [0..<MID]) \<le> 2 ^ 24" if "i < N2" "j < N1" "k < N0" for i j k
    using assms(7) that by simp
  have pos: "0 < B0" "0 < B1" "0 < B2"
    using assms(3,4,5) by (simp_all add: is_pow2_pos)
  have body: "?body pid = Inr (w pid)" for pid
    unfolding w_def D_def by (rule dot_kernel_eq [OF assms(1,3,4,5,6) bound])
  have run: "launch_res ?body (cdiv N0 B0) (cdiv N1 B1) (cdiv N2 B2)
      = Inr (launch w (cdiv N0 B0) (cdiv N1 B1) (cdiv N2 B2))"
    by (rule launch_res_Inr) (rule body)
  have mem: "e \<in> set (w pid) \<longleftrightarrow> (\<exists>i j k. i < N2 \<and> j < N1 \<and> k < N0
        \<and> i div B2 = snd (snd pid) \<and> j div B1 = fst (snd pid) \<and> k div B0 = fst pid
        \<and> e = (i * N1 * N0 + j * N0 + k, fin_int (D i j k)))" for e pid
  proof
    assume "e \<in> set (w pid)"
    then obtain a b c where abc: "a < B2" "b < B1" "c < B0"
      and r: "snd (snd pid) * B2 + a < N2" "fst (snd pid) * B1 + b < N1" "fst pid * B0 + c < N0"
      and e: "e = ((snd (snd pid) * B2 + a) * N1 * N0 + (fst (snd pid) * B1 + b) * N0
          + (fst pid * B0 + c),
        fin_int (D (snd (snd pid) * B2 + a) (fst (snd pid) * B1 + b) (fst pid * B0 + c)))"
      unfolding w_def set_store3 by auto
    show "\<exists>i j k. i < N2 \<and> j < N1 \<and> k < N0
        \<and> i div B2 = snd (snd pid) \<and> j div B1 = fst (snd pid) \<and> k div B0 = fst pid
        \<and> e = (i * N1 * N0 + j * N0 + k, fin_int (D i j k))"
      by (rule exI [of _ "snd (snd pid) * B2 + a"], rule exI [of _ "fst (snd pid) * B1 + b"],
          rule exI [of _ "fst pid * B0 + c"]) (use abc r e in simp)
  next
    assume "\<exists>i j k. i < N2 \<and> j < N1 \<and> k < N0
        \<and> i div B2 = snd (snd pid) \<and> j div B1 = fst (snd pid) \<and> k div B0 = fst pid
        \<and> e = (i * N1 * N0 + j * N0 + k, fin_int (D i j k))"
    then obtain i j k where r: "i < N2" "j < N1" "k < N0"
      and d: "i div B2 = snd (snd pid)" "j div B1 = fst (snd pid)" "k div B0 = fst pid"
      and e: "e = (i * N1 * N0 + j * N0 + k, fin_int (D i j k))"
      by blast
    have i: "snd (snd pid) * B2 + i mod B2 = i" and j: "fst (snd pid) * B1 + j mod B1 = j"
      and k: "fst pid * B0 + k mod B0 = k"
      using d by (simp_all flip: d)
    show "e \<in> set (w pid)"
      unfolding w_def set_store3
      by (rule CollectI, rule exI [of _ "i mod B2"], rule exI [of _ "j mod B1"],
          rule exI [of _ "k mod B0"]) (use pos r e i j k in simp)
  qed
  have val: "commit (launch w (cdiv N0 B0) (cdiv N1 B1) (cdiv N2 B2)) z (i * N1 * N0 + j * N0 + k)
      = fin_int (D i j k)" if r: "i < N2" "j < N1" "k < N0" for i j k
  proof (rule commit_launch_value [where pid = "(k div B0, j div B1, i div B2)"])
    show "(k div B0, j div B1, i div B2) \<in> set (grid (cdiv N0 B0) (cdiv N1 B1) (cdiv N2 B2))"
      using pos r by (simp add: set_grid div_less_cdiv)
    show "(i * N1 * N0 + j * N0 + k, fin_int (D i j k)) \<in> set (w (k div B0, j div B1, i div B2))"
      unfolding mem using r by auto
    show "snd e = fin_int (D i j k)" if "e \<in> set (w pid')" "fst e = i * N1 * N0 + j * N0 + k"
      for pid' e
    proof -
      from that(1) obtain i' j' k' where b: "i' < N2" "j' < N1" "k' < N0"
        and e: "e = (i' * N1 * N0 + j' * N0 + k', fin_int (D i' j' k'))"
        unfolding mem by blast
      from e that(2) have "i' * N1 * N0 + j' * N0 + k' = i * N1 * N0 + j * N0 + k" by simp
      from idx3_inj [OF b(2,3) r(2,3) this] e show ?thesis by simp
    qed
  qed
  have spec: "dot_spec red' (int_buffer xi) (int_buffer yi) N0 N1 MID i j k = fin_int (D i j k)"
    if "i < N2" "j < N1" "k < N0" for i j k
    unfolding D_def by (rule dot_spec_exact [OF assms(2) bound [OF that]])
  have "\<forall>i<N2. \<forall>j<N1. \<forall>k<N0.
      commit (launch w (cdiv N0 B0) (cdiv N1 B1) (cdiv N2 B2)) z (i * N1 * N0 + j * N0 + k)
        = dot_spec red' (int_buffer xi) (int_buffer yi) N0 N1 MID i j k
      \<and> dot_spec red' (int_buffer xi) (int_buffer yi) N0 N1 MID i j k = fin_int (D i j k)"
    using val spec by simp
  then show ?thesis unfolding run D_def by blast
qed


text \<open>The theorem at a \<open>2 \<times> 3\<close> by \<open>3 \<times> 2\<close> product with all block sizes 2: the
  contraction extent 3 and the batch extent 1 are not multiples of the block size.\<close>

theorem dot_kernel_correct_witness:
  "\<exists>ws. launch_res (dot_kernel f32_sum (int_buffer (iptr_of [1, 2, 3, 4, 5, 6]))
          (int_buffer (iptr_of [1, 0, 0, 1, 1, 1])) 2 2 1 3 2 2 2 2)
        (cdiv 2 2) (cdiv 2 2) (cdiv 1 2) = Inr ws
     \<and> commit ws (fptr_of [0, 0, 0, 0]) 3 = Fin 11
     \<and> dot_spec f32_sum (int_buffer (iptr_of [1, 2, 3, 4, 5, 6]))
          (int_buffer (iptr_of [1, 0, 0, 1, 1, 1])) 2 2 3 0 1 1 = Fin 11"
proof -
  have p2: "is_pow2 2" by (simp add: is_pow2_def)
  have bound: "\<forall>i<1. \<forall>j<2. \<forall>k<2.
      sum_list (map (\<lambda>l. \<bar>iptr_of [1, 2, 3, 4, 5, 6] (i * 2 * 3 + j * 3 + l)
          * iptr_of [1, 0, 0, 1, 1, 1] (i * 3 * 2 + l * 2 + k)\<bar>) [0..<3]) \<le> 2 ^ 24"
    by (auto simp: iptr_of_def upt_conv_Cons less_2_cases_iff)
  have v: "fin_int (sum_list (map (\<lambda>l. iptr_of [1, 2, 3, 4, 5, 6] (0 * 2 * 3 + 1 * 3 + l)
          * iptr_of [1, 0, 0, 1, 1, 1] (0 * 3 * 2 + l * 2 + 1)) [0..<3])) = Fin 11"
    by (simp add: iptr_of_def upt_conv_Cons fin_int_def)
  from dot_kernel_correct [OF f32_reduction_f32_sum f32_reduction_f32_sum p2 p2 p2 p2 bound,
      of "fptr_of [0, 0, 0, 0]"]
  obtain ws where run: "launch_res (dot_kernel f32_sum (int_buffer (iptr_of [1, 2, 3, 4, 5, 6]))
          (int_buffer (iptr_of [1, 0, 0, 1, 1, 1])) 2 2 1 3 2 2 2 2)
        (cdiv 2 2) (cdiv 2 2) (cdiv 1 2) = Inr ws"
    and all: "\<forall>i<1. \<forall>j<2. \<forall>k<2.
       commit ws (fptr_of [0, 0, 0, 0]) (i * 2 * 2 + j * 2 + k)
         = dot_spec f32_sum (int_buffer (iptr_of [1, 2, 3, 4, 5, 6]))
             (int_buffer (iptr_of [1, 0, 0, 1, 1, 1])) 2 2 3 i j k
       \<and> dot_spec f32_sum (int_buffer (iptr_of [1, 2, 3, 4, 5, 6]))
             (int_buffer (iptr_of [1, 0, 0, 1, 1, 1])) 2 2 3 i j k
         = fin_int (sum_list (map (\<lambda>l. iptr_of [1, 2, 3, 4, 5, 6] (i * 2 * 3 + j * 3 + l)
             * iptr_of [1, 0, 0, 1, 1, 1] (i * 3 * 2 + l * 2 + k)) [0..<3]))"
    by blast
  from all have "commit ws (fptr_of [0, 0, 0, 0]) (0 * 2 * 2 + 1 * 2 + 1)
         = dot_spec f32_sum (int_buffer (iptr_of [1, 2, 3, 4, 5, 6]))
             (int_buffer (iptr_of [1, 0, 0, 1, 1, 1])) 2 2 3 0 1 1
       \<and> dot_spec f32_sum (int_buffer (iptr_of [1, 2, 3, 4, 5, 6]))
             (int_buffer (iptr_of [1, 0, 0, 1, 1, 1])) 2 2 3 0 1 1
         = fin_int (sum_list (map (\<lambda>l. iptr_of [1, 2, 3, 4, 5, 6] (0 * 2 * 3 + 1 * 3 + l)
             * iptr_of [1, 0, 0, 1, 1, 1] (0 * 3 * 2 + l * 2 + 1)) [0..<3]))"
    by (elim allE [of _ 0] allE [of _ 1] impE) simp_all
  then have "commit ws (fptr_of [0, 0, 0, 0]) 3 = Fin 11
     \<and> dot_spec f32_sum (int_buffer (iptr_of [1, 2, 3, 4, 5, 6]))
          (int_buffer (iptr_of [1, 0, 0, 1, 1, 1])) 2 2 3 0 1 1 = Fin 11"
    unfolding v by (simp add: numeral_3_eq_3)
  with run show ?thesis by blast
qed

text \<open>Claim C1 as stated, for every pair of input tensors, fails in float32: for the row
  \<open>[1e8, 1, -1e8, 1]\<close> times a column of ones with \<open>B_MID = 2\<close>, adding from left to right,
  each partial product \<open>1e8 + 1\<close> and \<open>-1e8 + 1\<close> rounds the 1 away, so the kernel stores
  0.0, where the same reduction over the whole contraction axis gives \<open>dot_spec\<close> 1.0,
  and \<open>|0 - 1|\<close> exceeds \<open>atol + rtol * |1|\<close>.\<close>

theorem dot_kernel_rounding_counterexample:
  "launch_res (dot_kernel f32_sum (fptr_of [100000000, 1, - 100000000, 1]) (fptr_of [1, 1, 1, 1])
        1 1 1 4 1 1 1 2) (cdiv 1 1) (cdiv 1 1) (cdiv 1 1) = Inr [(0, Fin 0)]
   \<and> dot_spec f32_sum (fptr_of [100000000, 1, - 100000000, 1]) (fptr_of [1, 1, 1, 1]) 1 1 4 0 0 0
       = Fin 1
   \<and> \<not> allclose 0 1"
proof -
  have one: "fl32 1 = Fin 1" using fl32_int [of 1] by simp
  have zero: "fl32 0 = Fin 0" by (simp add: fl32_def)
  have k: "dot_kernel f32_sum (fptr_of [100000000, 1, - 100000000, 1]) (fptr_of [1, 1, 1, 1])
        1 1 1 4 1 1 1 2 (0, 0, 0) = Inr [(0, Fin 0)]"
    by (simp add: dot_kernel_def tl_arange_def tl_range_def trange_def cdiv_def upt_conv_Cons
        program_id_def arange_def expand_dims_12_def expand_dims_02_def expand_dims_01_def
        load3_def dot3_def f32_sum_def f32_add_def f32_mul_def fptr_of_def
        store3_def store2_def store1_def
        fl32_1e8 fl32_1e8_plus_1 fl32_1e8_minus_1 zero one)
  have s: "dot_spec f32_sum (fptr_of [100000000, 1, - 100000000, 1]) (fptr_of [1, 1, 1, 1])
        1 1 4 0 0 0 = Fin 1"
    by (simp add: dot_spec_def upt_conv_Cons f32_sum_def f32_add_def f32_mul_def fptr_of_def
        fl32_1e8 fl32_1e8_plus_1 one zero)
  have a: "\<not> allclose 0 1"
    by (simp add: allclose_def atol_def rtol_def)
  show ?thesis
    using k s a by (simp add: launch_res_def grid_def cdiv_def)
qed

section \<open>Puzzle 10: the convolution and the zero-padded reference\<close>

lemma fold_res_append:
  "fold_res (\<lambda>k ws. Inr (ws @ g k)) ks acc = Inr (acc @ concat (map g ks))"
  by (induction ks arbitrary: acc) simp_all

lemma trange_step_Suc0: "trange 0 n (Suc 0) = [0..<n]"
  using trange_step1 [of n] by simp

lemma sum_list_swap:
  fixes f :: "nat \<Rightarrow> nat \<Rightarrow> int"
  shows "sum_list (map (\<lambda>a. sum_list (map (\<lambda>b. f a b) [0..<m])) [0..<n])
       = sum_list (map (\<lambda>b. sum_list (map (\<lambda>a. f a b) [0..<n])) [0..<m])"
  unfolding interv_sum_list_conv_sum_set_nat by (rule sum.swap)

text \<open>An instance of the kernel: for every pixel \<open>[h, w]\<close> of its images, the window
  of the zero-padded image (a position past the bottom or right boundary is masked out
  of the load and gives 0) times the kernel, reduced along the columns and then along
  the rows.\<close>

lemma conv2d_kernel_run:
  assumes "is_pow2 KH" "is_pow2 KW" "is_pow2 B0"
  shows "conv2d_kernel red x_ptr k_ptr N0 H W KH KW B0 pid =
     Inr (concat (map (\<lambda>h. concat (map (\<lambda>w.
       store1 B0 (\<lambda>a. (fst pid * B0 + a) * H * W + h * W + w)
         (\<lambda>a. red (map (\<lambda>b. red (map (\<lambda>c.
            f32_mul (pad_x x_ptr H W (fst pid * B0 + a) (h + b) (w + c)) (k_ptr (KW * b + c)))
            [0..<KW])) [0..<KH]))
         (\<lambda>a. fst pid * B0 + a < N0)) [0..<W])) [0..<H]))"
proof -
  have "store1 B0 (\<lambda>a. (fst pid * B0 + a) * H * W + h * W + w)
         (\<lambda>a. red (map (\<lambda>b. red (map (\<lambda>c.
            f32_mul (if fst pid * B0 + a < N0 \<and> h + b < H \<and> w + c < W
                then x_ptr ((fst pid * B0 + a) * H * W + (h + b) * W + (w + c)) else Fin 0)
              (k_ptr (KW * b + c)))
            [0..<KW])) [0..<KH]))
         (\<lambda>a. fst pid * B0 + a < N0)
     = store1 B0 (\<lambda>a. (fst pid * B0 + a) * H * W + h * W + w)
         (\<lambda>a. red (map (\<lambda>b. red (map (\<lambda>c.
            f32_mul (pad_x x_ptr H W (fst pid * B0 + a) (h + b) (w + c)) (k_ptr (KW * b + c)))
            [0..<KW])) [0..<KH]))
         (\<lambda>a. fst pid * B0 + a < N0)" for h w
    by (simp add: store1_def pad_x_def)
  then show ?thesis
    unfolding conv2d_kernel_def Let_def
    by (simp add: tl_arange_0_pow2 [OF assms(1)] tl_arange_0_pow2 [OF assms(2)]
        tl_arange_0_pow2 [OF assms(3)] tl_arange_pow2 [OF assms(1)] tl_arange_pow2 [OF assms(2)]
        tl_range_pos trange_step_Suc0 fold_res_append program_id_def arange_def
        expand_dims_12_def expand_dims_02_def expand_dims_01_def expand_dims_1_def
        expand_dims_0_def load2_def load3_def no_mask2_def reduce_axis1_def reduce3_axis2_def)
qed


text \<open>The addresses written by a launch are pairwise distinct.\<close>

lemma conv_writes_set:
  "set (concat (map (\<lambda>h. concat (map (\<lambda>w.
       store1 B0 (\<lambda>a. (i * B0 + a) * H * W + h * W + w) (\<lambda>a. V (i * B0 + a) h w)
         (\<lambda>a. i * B0 + a < N0)) [0..<W])) [0..<H]))
   = {((i * B0 + a) * H * W + h * W + w, V (i * B0 + a) h w)
      | a h w. a < B0 \<and> h < H \<and> w < W \<and> i * B0 + a < N0}"
proof -
  have "(e \<in> set (concat (map (\<lambda>h. concat (map (\<lambda>w.
       store1 B0 (\<lambda>a. (i * B0 + a) * H * W + h * W + w) (\<lambda>a. V (i * B0 + a) h w)
         (\<lambda>a. i * B0 + a < N0)) [0..<W])) [0..<H])))
     = (\<exists>a h w. e = ((i * B0 + a) * H * W + h * W + w, V (i * B0 + a) h w)
          \<and> a < B0 \<and> h < H \<and> w < W \<and> i * B0 + a < N0)" for e
    by (simp add: set_store1 Bex_def) blast
  then show ?thesis by blast
qed

lemma conv_addresses:
  "map fst (launch (\<lambda>pid. concat (map (\<lambda>h. concat (map (\<lambda>w.
       store1 B0 (\<lambda>a. (fst pid * B0 + a) * H * W + h * W + w) (\<lambda>a. V (fst pid * B0 + a) h w)
         (\<lambda>a. fst pid * B0 + a < N0)) [0..<W])) [0..<H])) g0 1 1) =
     concat (map (\<lambda>i. concat (map (\<lambda>h. concat (map (\<lambda>w.
       map (\<lambda>a. (i * B0 + a) * H * W + h * W + w) (filter (\<lambda>a. i * B0 + a < N0) [0..<B0]))
         [0..<W])) [0..<H])) [0..<g0])"
  by (simp add: launch_def grid_g11 map_concat comp_def store1_def)

lemma conv_distinct:
  assumes "0 < B0"
  shows "distinct (map fst (launch (\<lambda>pid. concat (map (\<lambda>h. concat (map (\<lambda>w.
       store1 B0 (\<lambda>a. (fst pid * B0 + a) * H * W + h * W + w) (\<lambda>a. V (fst pid * B0 + a) h w)
         (\<lambda>a. fst pid * B0 + a < N0)) [0..<W])) [0..<H])) g0 1 1))"
  unfolding conv_addresses
proof (rule distinct_concat_key [where key = "\<lambda>p. p div W div H div B0"])
  show "distinct [0..<g0]" by simp
next
  fix i e assume "e \<in> set (concat (map (\<lambda>h. concat (map (\<lambda>w.
       map (\<lambda>a. (i * B0 + a) * H * W + h * W + w) (filter (\<lambda>a. i * B0 + a < N0) [0..<B0]))
         [0..<W])) [0..<H]))"
  then obtain h w a where "h < H" "w < W" "a < B0" "e = (i * B0 + a) * H * W + h * W + w"
    by auto
  then show "e div W div H div B0 = i" by (simp add: addr_decode)
next
  fix i
  show "distinct (concat (map (\<lambda>h. concat (map (\<lambda>w.
       map (\<lambda>a. (i * B0 + a) * H * W + h * W + w) (filter (\<lambda>a. i * B0 + a < N0) [0..<B0]))
         [0..<W])) [0..<H]))"
  proof (rule distinct_concat_key [where key = "\<lambda>p. p div W mod H"])
    show "distinct [0..<H]" by simp
  next
    fix h e assume "h \<in> set [0..<H]" and "e \<in> set (concat (map (\<lambda>w.
       map (\<lambda>a. (i * B0 + a) * H * W + h * W + w) (filter (\<lambda>a. i * B0 + a < N0) [0..<B0]))
         [0..<W]))"
    then obtain w a where "h < H" "w < W" "e = (i * B0 + a) * H * W + h * W + w"
      by auto
    then show "e div W mod H = h" by (simp add: addr_decode)
  next
    fix h assume h: "h \<in> set [0..<H]"
    show "distinct (concat (map (\<lambda>w.
       map (\<lambda>a. (i * B0 + a) * H * W + h * W + w) (filter (\<lambda>a. i * B0 + a < N0) [0..<B0]))
         [0..<W]))"
    proof (rule distinct_concat_key [where key = "\<lambda>p. p mod W"])
      show "distinct [0..<W]" by simp
    next
      fix w e assume "w \<in> set [0..<W]"
        and "e \<in> set (map (\<lambda>a. (i * B0 + a) * H * W + h * W + w) (filter (\<lambda>a. i * B0 + a < N0) [0..<B0]))"
      then obtain a where "w < W" "e = (i * B0 + a) * H * W + h * W + w" by auto
      with h show "e mod W = w" by (simp add: addr_decode)
    next
      fix w assume w: "w \<in> set [0..<W]"
      have "inj_on (\<lambda>a. (i * B0 + a) * H * W + h * W + w) A" for A
      proof (rule inj_onI)
        fix a b assume "(i * B0 + a) * H * W + h * W + w = (i * B0 + b) * H * W + h * W + w"
        from arg_cong [OF this, of "\<lambda>p. p div W div H"]
        show "a = b" using h w by (simp add: addr_decode)
      qed
      then show "distinct (map (\<lambda>a. (i * B0 + a) * H * W + h * W + w) (filter (\<lambda>a. i * B0 + a < N0) [0..<B0]))"
        by (simp add: distinct_map)
    qed
  qed
qed

text \<open>The launch returns, and every output element is written exactly once.\<close>

lemma conv2d_launch_value:
  assumes "is_pow2 KH" "is_pow2 KW" "is_pow2 B0"
  shows "\<exists>ws. launch_res (conv2d_kernel red x_ptr k_ptr N0 H W KH KW B0) (cdiv N0 B0) 1 1 = Inr ws
     \<and> (\<forall>n<N0. \<forall>h<H. \<forall>w<W.
          commit ws z (n * H * W + h * W + w)
            = red (map (\<lambda>b. red (map (\<lambda>c.
                f32_mul (pad_x x_ptr H W n (h + b) (w + c)) (k_ptr (KW * b + c)))
                [0..<KW])) [0..<KH])
          \<and> count_list (map fst ws) (n * H * W + h * W + w) = 1)"
proof -
  define V where "V n h w = red (map (\<lambda>b. red (map (\<lambda>c.
      f32_mul (pad_x x_ptr H W n (h + b) (w + c)) (k_ptr (KW * b + c))) [0..<KW])) [0..<KH])"
    for n h w
  define wf where "wf pid = concat (map (\<lambda>h. concat (map (\<lambda>w.
       store1 B0 (\<lambda>a. (fst pid * B0 + a) * H * W + h * W + w) (\<lambda>a. V (fst pid * B0 + a) h w)
         (\<lambda>a. fst pid * B0 + a < N0)) [0..<W])) [0..<H])" for pid :: "nat \<times> nat \<times> nat"
  have B0: "0 < B0" by (rule is_pow2_pos [OF assms(3)])
  have body: "conv2d_kernel red x_ptr k_ptr N0 H W KH KW B0 pid = Inr (wf pid)" for pid
    unfolding wf_def V_def by (rule conv2d_kernel_run [OF assms])
  have run: "launch_res (conv2d_kernel red x_ptr k_ptr N0 H W KH KW B0) (cdiv N0 B0) 1 1
      = Inr (launch wf (cdiv N0 B0) 1 1)"
    by (rule launch_res_Inr) (rule body)
  have writes: "set (wf pid) = {((fst pid * B0 + a) * H * W + h * W + w, V (fst pid * B0 + a) h w)
      | a h w. a < B0 \<and> h < H \<and> w < W \<and> fst pid * B0 + a < N0}" for pid
    unfolding wf_def by (rule conv_writes_set)
  have dist: "distinct (map fst (launch wf (cdiv N0 B0) 1 1))"
    unfolding wf_def by (rule conv_distinct [OF B0])
  have one: "commit (launch wf (cdiv N0 B0) 1 1) z (n * H * W + h * W + w) = V n h w
      \<and> count_list (map fst (launch wf (cdiv N0 B0) 1 1)) (n * H * W + h * W + w) = 1"
    if r: "n < N0" "h < H" "w < W" for n h w
  proof
    let ?p = "n * H * W + h * W + w"
    have grid: "(n div B0, 0, 0) \<in> set (grid (cdiv N0 B0) 1 1)"
      using B0 r by (simp add: set_grid div_less_cdiv)
    have mem: "(?p, V n h w) \<in> set (wf (n div B0, 0, 0))"
      unfolding writes
      by (rule CollectI, rule exI [of _ "n mod B0"], rule exI [of _ h], rule exI [of _ w])
        (use B0 r in simp)
    show "commit (launch wf (cdiv N0 B0) 1 1) z ?p = V n h w"
    proof (rule commit_launch_value [where pid = "(n div B0, 0, 0)"])
      show "(n div B0, 0, 0) \<in> set (grid (cdiv N0 B0) 1 1)" by (rule grid)
      show "(?p, V n h w) \<in> set (wf (n div B0, 0, 0))" by (rule mem)
    next
      fix pid' e assume "e \<in> set (wf pid')" "fst e = ?p"
      then obtain n' h' w' where e: "e = (n' * H * W + h' * W + w', V n' h' w')"
        and b: "h' < H" "w' < W"
        unfolding writes by blast
      from e \<open>fst e = ?p\<close> have "n' * H * W + h' * W + w' = n * H * W + h * W + w" by simp
      from idx3_inj [OF b r(2,3) this] e show "snd e = V n h w" by simp
    qed
    have "?p \<in> fst ` set (launch wf (cdiv N0 B0) 1 1)"
      unfolding set_launch using grid mem by force
    then show "count_list (map fst (launch wf (cdiv N0 B0) 1 1)) ?p = 1"
      by (intro distinct_count_list dist) simp
  qed
  then have "\<forall>n<N0. \<forall>h<H. \<forall>w<W.
      commit (launch wf (cdiv N0 B0) 1 1) z (n * H * W + h * W + w) = V n h w
      \<and> count_list (map fst (launch wf (cdiv N0 B0) 1 1)) (n * H * W + h * W + w) = 1"
    by blast
  then show ?thesis unfolding run V_def by blast
qed


text \<open>A sum of sums of float32 products of integers is exact while the magnitudes add
  up to at most \<open>2^24\<close>, whichever axis is reduced first.\<close>

lemma f32_double_dot_exact:
  assumes "f32_reduction red"
    and "sum_list (map (\<lambda>a. sum_list (map (\<lambda>b. \<bar>p a b * q a b\<bar>) bs)) as) \<le> 2 ^ 24"
  shows "red (map (\<lambda>a. red (map (\<lambda>b. f32_mul (fin_int (p a b)) (fin_int (q a b))) bs)) as)
     = fin_int (sum_list (map (\<lambda>a. sum_list (map (\<lambda>b. p a b * q a b) bs)) as))"
proof -
  define g where "g a = sum_list (map (\<lambda>b. \<bar>p a b * q a b\<bar>) bs)" for a
  have g0: "0 \<le> g a" for a
    unfolding g_def by (rule sum_list_nonneg) auto
  have total: "sum_list (map g as) \<le> 2 ^ 24"
    using assms(2) by (simp add: g_def [abs_def])
  have inner_bound: "g a \<le> 2 ^ 24" if "a \<in> set as" for a
  proof -
    have "\<bar>g a\<bar> \<le> sum_list (map (\<lambda>a. \<bar>g a\<bar>) as)"
      by (rule abs_elem_le_sum_list [OF that])
    then show ?thesis using g0 total by (simp add: abs_of_nonneg)
  qed
  have inner: "red (map (\<lambda>b. f32_mul (fin_int (p a b)) (fin_int (q a b))) bs)
      = fin_int (sum_list (map (\<lambda>b. p a b * q a b) bs))" if "a \<in> set as" for a
    by (rule f32_dot_exact [OF assms(1)]) (use inner_bound [OF that] in \<open>simp add: g_def\<close>)
  have m: "map (\<lambda>a. red (map (\<lambda>b. f32_mul (fin_int (p a b)) (fin_int (q a b))) bs)) as
      = map fin_int (map (\<lambda>a. sum_list (map (\<lambda>b. p a b * q a b) bs)) as)"
    using inner by simp
  have "sum_list (map (\<lambda>a. \<bar>sum_list (map (\<lambda>b. p a b * q a b) bs)\<bar>) as) \<le> sum_list (map g as)"
  proof (rule sum_list_mono)
    fix a
    show "\<bar>sum_list (map (\<lambda>b. p a b * q a b) bs)\<bar> \<le> g a"
      using abs_sum_list_le [of "map (\<lambda>b. p a b * q a b) bs"] by (simp add: g_def comp_def)
  qed
  then have "sum_list (map abs (map (\<lambda>a. sum_list (map (\<lambda>b. p a b * q a b) bs)) as)) \<le> 2 ^ 24"
    using total by (simp add: comp_def)
  then show ?thesis
    unfolding m by (rule f32_reduction_exact [OF assms(1)])
qed

lemma pad_x_int:
  "pad_x (int_buffer xi) H W n r c
     = fin_int (if r < H \<and> c < W then xi (n * H * W + r * W + c) else 0)"
  by (simp add: pad_x_def int_buffer_def fin_int_def)

text \<open>Claim C10, for the inputs on which float32 arithmetic is exact: for every batch of
  images \<open>x\<close> of shape \<open>(N0, H, W)\<close> and kernel \<open>k\<close> of shape \<open>(KH, KW)\<close> that hold integers
  such that, in every window, the magnitudes of the products add up to at most \<open>2^24\<close>,
  all \<open>KH\<close>, \<open>KW\<close> and \<open>B0\<close> that are powers of two (\<open>tl.arange\<close> accepts no other) and all
  float32 reductions \<open>red\<close> of the kernel's \<open>sum(2).sum(1)\<close> and \<open>red'\<close> of the reference's
  \<open>sum(1).sum(1)\<close>, the launch of the convolution kernel on the grid of the harness
  returns, every output element \<open>z[n, h, w]\<close> is the element of the zero-padded reference
  \<open>conv2d_spec\<close>, which is the exact sum over the window (window positions past the bottom
  or right boundary are masked out of the load and add zero), and its address is written
  exactly once by the whole launch.\<close>

theorem conv2d_kernel_correct:
  assumes "f32_reduction red" "f32_reduction red'" "is_pow2 KH" "is_pow2 KW" "is_pow2 B0"
    and "\<forall>n<N0. \<forall>h<H. \<forall>w<W.
      sum_list (map (\<lambda>a. sum_list (map (\<lambda>b. \<bar>ki (a * KW + b)
          * (if h + a < H \<and> w + b < W then xi (n * H * W + (h + a) * W + (w + b)) else 0)\<bar>)
        [0..<KW])) [0..<KH]) \<le> 2 ^ 24"
  shows "\<exists>ws. launch_res (conv2d_kernel red (int_buffer xi) (int_buffer ki) N0 H W KH KW B0)
            (cdiv N0 B0) 1 1 = Inr ws
     \<and> (\<forall>n<N0. \<forall>h<H. \<forall>w<W.
          commit ws z (n * H * W + h * W + w)
            = conv2d_spec red' (int_buffer xi) (int_buffer ki) H W KH KW n h w
          \<and> conv2d_spec red' (int_buffer xi) (int_buffer ki) H W KH KW n h w
            = fin_int (sum_list (map (\<lambda>a. sum_list (map (\<lambda>b. ki (a * KW + b)
                * (if h + a < H \<and> w + b < W then xi (n * H * W + (h + a) * W + (w + b)) else 0))
                [0..<KW])) [0..<KH]))
          \<and> count_list (map fst ws) (n * H * W + h * W + w) = 1)"
proof -
  define P where "P n h w a b = ki (a * KW + b)
      * (if h + a < H \<and> w + b < W then xi (n * H * W + (h + a) * W + (w + b)) else 0)"
    for n h w a b
  have bound: "sum_list (map (\<lambda>a. sum_list (map (\<lambda>b. \<bar>P n h w a b\<bar>) [0..<KW])) [0..<KH]) \<le> 2 ^ 24"
    if "n < N0" "h < H" "w < W" for n h w
    using assms(6) that unfolding P_def by blast
  have kern: "red (map (\<lambda>b. red (map (\<lambda>c.
        f32_mul (pad_x (int_buffer xi) H W n (h + b) (w + c)) (int_buffer ki (KW * b + c)))
        [0..<KW])) [0..<KH])
      = fin_int (sum_list (map (\<lambda>a. sum_list (map (\<lambda>b. P n h w a b) [0..<KW])) [0..<KH]))"
    if r: "n < N0" "h < H" "w < W" for n h w
  proof -
    have "red (map (\<lambda>b. red (map (\<lambda>c.
        f32_mul (fin_int (if h + b < H \<and> w + c < W then xi (n * H * W + (h + b) * W + (w + c)) else 0))
          (fin_int (ki (KW * b + c)))) [0..<KW])) [0..<KH])
      = fin_int (sum_list (map (\<lambda>b. sum_list (map (\<lambda>c.
          (if h + b < H \<and> w + c < W then xi (n * H * W + (h + b) * W + (w + c)) else 0)
            * ki (KW * b + c)) [0..<KW])) [0..<KH]))"
      by (rule f32_double_dot_exact [OF assms(1)])
        (use bound [OF r] in \<open>simp add: P_def mult.commute\<close>)
    then show ?thesis
      unfolding pad_x_int by (simp add: int_buffer_def P_def mult.commute)
  qed
  have spec: "conv2d_spec red' (int_buffer xi) (int_buffer ki) H W KH KW n h w
      = fin_int (sum_list (map (\<lambda>a. sum_list (map (\<lambda>b. P n h w a b) [0..<KW])) [0..<KH]))"
    if r: "n < N0" "h < H" "w < W" for n h w
  proof -
    have "sum_list (map (\<lambda>b. sum_list (map (\<lambda>a. \<bar>P n h w a b\<bar>) [0..<KH])) [0..<KW]) \<le> 2 ^ 24"
      using bound [OF r] by (subst sum_list_swap)
    then have "red' (map (\<lambda>b. red' (map (\<lambda>a.
        f32_mul (fin_int (ki (a * KW + b)))
          (fin_int (if h + a < H \<and> w + b < W then xi (n * H * W + (h + a) * W + (w + b)) else 0)))
        [0..<KH])) [0..<KW])
      = fin_int (sum_list (map (\<lambda>b. sum_list (map (\<lambda>a. ki (a * KW + b)
          * (if h + a < H \<and> w + b < W then xi (n * H * W + (h + a) * W + (w + b)) else 0))
          [0..<KH])) [0..<KW]))"
      unfolding P_def by (rule f32_double_dot_exact [OF assms(2)])
    also have "\<dots> = fin_int (sum_list (map (\<lambda>a. sum_list (map (\<lambda>b. P n h w a b) [0..<KW])) [0..<KH]))"
      unfolding P_def by (subst sum_list_swap) (rule refl)
    finally show ?thesis
      unfolding conv2d_spec_def reduce_axis1_def reduce3_axis1_def pad_x_int
      by (simp add: int_buffer_def)
  qed
  from conv2d_launch_value [OF assms(3,4,5), of red "int_buffer xi" "int_buffer ki" N0 H W z]
  obtain ws where run: "launch_res (conv2d_kernel red (int_buffer xi) (int_buffer ki) N0 H W KH KW B0)
            (cdiv N0 B0) 1 1 = Inr ws"
    and all: "\<And>n h w. n < N0 \<Longrightarrow> h < H \<Longrightarrow> w < W \<Longrightarrow>
          commit ws z (n * H * W + h * W + w)
            = red (map (\<lambda>b. red (map (\<lambda>c.
                f32_mul (pad_x (int_buffer xi) H W n (h + b) (w + c)) (int_buffer ki (KW * b + c)))
                [0..<KW])) [0..<KH])
          \<and> count_list (map fst ws) (n * H * W + h * W + w) = 1"
    by blast
  have "\<forall>n<N0. \<forall>h<H. \<forall>w<W.
          commit ws z (n * H * W + h * W + w)
            = conv2d_spec red' (int_buffer xi) (int_buffer ki) H W KH KW n h w
          \<and> conv2d_spec red' (int_buffer xi) (int_buffer ki) H W KH KW n h w
            = fin_int (sum_list (map (\<lambda>a. sum_list (map (\<lambda>b. P n h w a b) [0..<KW])) [0..<KH]))
          \<and> count_list (map fst ws) (n * H * W + h * W + w) = 1"
    using all kern spec by simp
  then show ?thesis using run unfolding P_def by blast
qed


text \<open>The theorem at the shapes of the source, four \<open>8 \<times> 8\<close> images and a \<open>4 \<times> 4\<close>
  kernel, all of ones, with \<open>B0 = 1\<close>: at the last pixel of the last image only the
  window's first position lies inside the image.\<close>

lemma ones_window_bound:
  "sum_list (map (\<lambda>a. sum_list (map (\<lambda>b. \<bar>iptr_of (replicate 16 1) (a * 4 + b)
     * (if h + a < 8 \<and> w + b < 8 then iptr_of (replicate 256 1) (n * 8 * 8 + (h + a) * 8 + (w + b))
        else 0)\<bar>) [0..<4])) [0..<4]) \<le> 2 ^ 24"
proof -
  have t: "\<bar>iptr_of (replicate 16 1) p * (if c then iptr_of (replicate 256 1) q else 0)\<bar> \<le> 1"
    for p q c
    by (simp add: iptr_of_def abs_mult)
  have "sum_list (map (\<lambda>a. sum_list (map (\<lambda>b. \<bar>iptr_of (replicate 16 1) (a * 4 + b)
     * (if h + a < 8 \<and> w + b < 8 then iptr_of (replicate 256 1) (n * 8 * 8 + (h + a) * 8 + (w + b))
        else 0)\<bar>) [0..<4])) [0..<4])
     \<le> sum_list (map (\<lambda>a. sum_list (map (\<lambda>b. 1) [0..<4])) [0..<4])"
    by (intro sum_list_mono t)
  also have "\<dots> \<le> 2 ^ 24"
    by (simp add: sum_list_triv)
  finally show ?thesis .
qed

theorem conv2d_kernel_correct_witness:
  "\<exists>ws. launch_res (conv2d_kernel f32_sum (int_buffer (iptr_of (replicate 256 1)))
          (int_buffer (iptr_of (replicate 16 1))) 4 8 8 4 4 1) (cdiv 4 1) 1 1 = Inr ws
     \<and> commit ws (fptr_of (replicate 256 0)) 255 = Fin 1
     \<and> conv2d_spec f32_sum (int_buffer (iptr_of (replicate 256 1)))
          (int_buffer (iptr_of (replicate 16 1))) 8 8 4 4 3 7 7 = Fin 1
     \<and> count_list (map fst ws) 255 = 1"
proof -
  have p1: "is_pow2 1" and p4: "is_pow2 4"
    by (simp_all add: is_pow2_def)
  have bound: "\<forall>n<4. \<forall>h<8. \<forall>w<8.
      sum_list (map (\<lambda>a. sum_list (map (\<lambda>b. \<bar>iptr_of (replicate 16 1) (a * 4 + b)
          * (if h + a < 8 \<and> w + b < 8
             then iptr_of (replicate 256 1) (n * 8 * 8 + (h + a) * 8 + (w + b)) else 0)\<bar>)
        [0..<4])) [0..<4]) \<le> 2 ^ 24"
    using ones_window_bound by blast
  have v: "fin_int (sum_list (map (\<lambda>a. sum_list (map (\<lambda>b. iptr_of (replicate 16 1) (a * 4 + b)
          * (if 7 + a < 8 \<and> 7 + b < 8
             then iptr_of (replicate 256 1) (3 * 8 * 8 + (7 + a) * 8 + (7 + b)) else 0))
        [0..<4])) [0..<4])) = Fin 1"
    by (simp add: iptr_of_def upt_conv_Cons fin_int_def)
  from conv2d_kernel_correct [OF f32_reduction_f32_sum f32_reduction_f32_sum p4 p4 p1 bound,
      of "fptr_of (replicate 256 0)"]
  obtain ws where run: "launch_res (conv2d_kernel f32_sum (int_buffer (iptr_of (replicate 256 1)))
          (int_buffer (iptr_of (replicate 16 1))) 4 8 8 4 4 1) (cdiv 4 1) 1 1 = Inr ws"
    and all: "\<forall>n<4. \<forall>h<8. \<forall>w<8.
          commit ws (fptr_of (replicate 256 0)) (n * 8 * 8 + h * 8 + w)
            = conv2d_spec f32_sum (int_buffer (iptr_of (replicate 256 1)))
                (int_buffer (iptr_of (replicate 16 1))) 8 8 4 4 n h w
          \<and> conv2d_spec f32_sum (int_buffer (iptr_of (replicate 256 1)))
                (int_buffer (iptr_of (replicate 16 1))) 8 8 4 4 n h w
            = fin_int (sum_list (map (\<lambda>a. sum_list (map (\<lambda>b. iptr_of (replicate 16 1) (a * 4 + b)
                * (if h + a < 8 \<and> w + b < 8
                   then iptr_of (replicate 256 1) (n * 8 * 8 + (h + a) * 8 + (w + b)) else 0))
                [0..<4])) [0..<4]))
          \<and> count_list (map fst ws) (n * 8 * 8 + h * 8 + w) = 1"
    by blast
  from all have "commit ws (fptr_of (replicate 256 0)) (3 * 8 * 8 + 7 * 8 + 7)
            = conv2d_spec f32_sum (int_buffer (iptr_of (replicate 256 1)))
                (int_buffer (iptr_of (replicate 16 1))) 8 8 4 4 3 7 7
          \<and> conv2d_spec f32_sum (int_buffer (iptr_of (replicate 256 1)))
                (int_buffer (iptr_of (replicate 16 1))) 8 8 4 4 3 7 7
            = fin_int (sum_list (map (\<lambda>a. sum_list (map (\<lambda>b. iptr_of (replicate 16 1) (a * 4 + b)
                * (if 7 + a < 8 \<and> 7 + b < 8
                   then iptr_of (replicate 256 1) (3 * 8 * 8 + (7 + a) * 8 + (7 + b)) else 0))
                [0..<4])) [0..<4]))
          \<and> count_list (map fst ws) (3 * 8 * 8 + 7 * 8 + 7) = 1"
    by (elim allE [of _ 3] allE [of _ 7] impE) simp_all
  then have "commit ws (fptr_of (replicate 256 0)) 255 = Fin 1
     \<and> conv2d_spec f32_sum (int_buffer (iptr_of (replicate 256 1)))
          (int_buffer (iptr_of (replicate 16 1))) 8 8 4 4 3 7 7 = Fin 1
     \<and> count_list (map fst ws) 255 = 1"
    unfolding v by simp
  with run show ?thesis by blast
qed

text \<open>Claim C10 as stated, for every batch of images, fails in float32, at the shapes of
  the source: let the first image begin with the rows \<open>[1e8, 1, 0, ...]\<close> and
  \<open>[-1e8, 1, 0, ...]\<close> and be 0 elsewhere, and the kernel be all ones. For \<open>z[0, 0, 0]\<close>
  the kernel adds along each row of the window first, \<open>1e8 + 1\<close> and \<open>-1e8 + 1\<close>, which
  rounds each 1 away, and stores 0.0; the reference adds along each column first,
  \<open>1e8 - 1e8\<close> and \<open>1 + 1\<close>, and gives 2.0. (Each of these sums has the same value in
  every order of its additions.)\<close>

theorem conv2d_kernel_rounding_counterexample:
  "\<exists>ws. launch_res (conv2d_kernel f32_sum
          (fptr_of ([100000000, 1, 0, 0, 0, 0, 0, 0, - 100000000, 1] @ replicate 246 0))
          (fptr_of (replicate 16 1)) 4 8 8 4 4 1) (cdiv 4 1) 1 1 = Inr ws
     \<and> commit ws (fptr_of (replicate 256 0)) 0 = Fin 0
     \<and> conv2d_spec f32_sum
          (fptr_of ([100000000, 1, 0, 0, 0, 0, 0, 0, - 100000000, 1] @ replicate 246 0))
          (fptr_of (replicate 16 1)) 8 8 4 4 0 0 0 = Fin 2
     \<and> \<not> allclose 0 2"
proof -
  let ?x = "fptr_of ([100000000, 1, 0, 0, 0, 0, 0, 0, - 100000000, 1] @ replicate 246 0)"
  let ?k = "fptr_of (replicate 16 1)"
  have p1: "is_pow2 1" and p4: "is_pow2 4"
    by (simp_all add: is_pow2_def)
  have one: "fl32 1 = Fin 1" using fl32_int [of 1] by simp
  have two: "fl32 2 = Fin 2" using fl32_int [of 2] by simp
  have zero: "fl32 0 = Fin 0" by (simp add: fl32_def)
  have kv: "f32_sum (map (\<lambda>b. f32_sum (map (\<lambda>c.
        f32_mul (pad_x ?x 8 8 0 (0 + b) (0 + c)) (?k (4 * b + c))) [0..<4])) [0..<4]) = Fin 0"
    by (simp add: upt_conv_Cons pad_x_def fptr_of_def nth_append f32_sum_def f32_add_def
        f32_mul_def fl32_1e8 fl32_1e8_plus_1 fl32_1e8_minus_1 one zero)
  have sv: "conv2d_spec f32_sum ?x ?k 8 8 4 4 0 0 0 = Fin 2"
    by (simp add: conv2d_spec_def reduce_axis1_def reduce3_axis1_def upt_conv_Cons pad_x_def
        fptr_of_def nth_append f32_sum_def f32_add_def f32_mul_def fl32_1e8 one two zero)
  have a: "\<not> allclose 0 2"
    by (simp add: allclose_def atol_def rtol_def)
  from conv2d_launch_value [OF p4 p4 p1, of f32_sum ?x ?k 4 8 8 "fptr_of (replicate 256 0)"]
  obtain ws where run: "launch_res (conv2d_kernel f32_sum ?x ?k 4 8 8 4 4 1) (cdiv 4 1) 1 1 = Inr ws"
    and all: "\<forall>n<4. \<forall>h<8. \<forall>w<8.
          commit ws (fptr_of (replicate 256 0)) (n * 8 * 8 + h * 8 + w)
            = f32_sum (map (\<lambda>b. f32_sum (map (\<lambda>c.
                f32_mul (pad_x ?x 8 8 n (h + b) (w + c)) (?k (4 * b + c))) [0..<4])) [0..<4])
          \<and> count_list (map fst ws) (n * 8 * 8 + h * 8 + w) = 1"
    by blast
  from all have "commit ws (fptr_of (replicate 256 0)) (0 * 8 * 8 + 0 * 8 + 0)
            = f32_sum (map (\<lambda>b. f32_sum (map (\<lambda>c.
                f32_mul (pad_x ?x 8 8 0 (0 + b) (0 + c)) (?k (4 * b + c))) [0..<4])) [0..<4])"
    by (elim allE [of _ 0] impE) simp_all
  then have "commit ws (fptr_of (replicate 256 0)) 0 = Fin 0"
    unfolding kv by simp
  with run sv a show ?thesis by blast
qed

section \<open>Puzzles 8 and 9: a last chunk that is partly masked\<close>


lemma trange_0_3_2: "trange 0 3 2 = [0, 2]"
  by (simp add: trange_def cdiv_def upt_conv_Cons)

lemma softmax_kernel_zeros:
  "softmax_kernel (fptr_of [0, 0, 0]) 1 2 3 1 2 (0, 0, 0)
     = [(0, Fin (1 / 4)), (1, Fin (1 / 4)), (2, Fin (1 / 4))]"
  by (simp add: softmax_kernel_def Let_def trange_0_3_2 program_id_def arange_def
      expand_dims_1_def expand_dims_0_def load2_def fmax_axis1_def fsum_axis1_def fsub_def
      log2_e_def fptr_of_def store2_def store1_def upt_conv_Cons)

lemma three_plus_powr_neq_0: "3 + (2::real) powr x \<noteq> 0"
  using powr_ge_zero [of 2 x] by linarith

lemma softmax_kernel_ones:
  "softmax_kernel (fptr_of [1, 1, 1]) 1 2 3 1 2 (0, 0, 0)
     = [(0, Fin (1 / (3 + 2 powr (- 1.44269504)))), (1, Fin (1 / (3 + 2 powr (- 1.44269504)))),
        (2, Fin (1 / (3 + 2 powr (- 1.44269504))))]"
  by (simp add: softmax_kernel_def Let_def trange_0_3_2 program_id_def arange_def
      expand_dims_1_def expand_dims_0_def load2_def fmax_axis1_def fsum_axis1_def fsub_def
      log2_e_def fptr_of_def store2_def store1_def upt_conv_Cons three_plus_powr_neq_0)

lemma launch_cdiv_111: "launch body (cdiv 1 1) (cdiv 2 2) 1 = body (0, 0, 0)"
  by (simp add: cdiv_def launch_def grid_def)

text \<open>Claim C4 fails on the code when \<open>B1\<close> does not divide \<open>T\<close>. For one row of three
  zeros and \<open>B1 = 2\<close> the kernel's row is \<open>1/4, 1/4, 1/4\<close>, which sums to \<open>3/4\<close>, where
  \<open>softmax_spec\<close> gives \<open>1/3, 1/3, 1/3\<close>; and adding 1 to every logit changes the
  output. The masked-out position of the last chunk is loaded as 0 and adds
  \<open>exp2(log2_e * (0 - max))\<close> to the running sum.\<close>

theorem softmax_kernel_partial_chunk:
  "map (commit (launch (softmax_kernel (fptr_of [0, 0, 0]) 1 2 3 1 2) (cdiv 1 1) (cdiv 2 2) 1)
      (fptr_of [0, 0, 0])) [0, 1, 2] = [Fin (1 / 4), Fin (1 / 4), Fin (1 / 4)]
   \<and> softmax_spec [[0, 0, 0]] = [[1 / 3, 1 / 3, 1 / 3]]
   \<and> commit (launch (softmax_kernel (fptr_of [1, 1, 1]) 1 2 3 1 2) (cdiv 1 1) (cdiv 2 2) 1)
      (fptr_of [0, 0, 0]) 0 \<noteq> Fin (1 / 4)"
proof (intro conjI)
  show "map (commit (launch (softmax_kernel (fptr_of [0, 0, 0]) 1 2 3 1 2) (cdiv 1 1) (cdiv 2 2) 1)
      (fptr_of [0, 0, 0])) [0, 1, 2] = [Fin (1 / 4), Fin (1 / 4), Fin (1 / 4)]"
    unfolding launch_cdiv_111 softmax_kernel_zeros by simp
  show "softmax_spec [[0, 0, 0]] = [[1 / 3, 1 / 3, 1 / 3]]"
    by (simp add: softmax_spec_def softmax_row_def)
  have "(2::real) powr (- 1.44269504) < 2 powr 0"
    by (intro powr_less_mono) simp_all
  then have "3 + (2::real) powr (- 1.44269504) \<noteq> 4" by simp
  then show "commit (launch (softmax_kernel (fptr_of [1, 1, 1]) 1 2 3 1 2) (cdiv 1 1) (cdiv 2 2) 1)
      (fptr_of [0, 0, 0]) 0 \<noteq> Fin (1 / 4)"
    unfolding launch_cdiv_111 softmax_kernel_ones by (simp add: field_simps)
qed

lemma flashatt_instance0:
  "flashatt_kernel (fptr_of [0, 0, 0]) (fptr_of [0, 0, 0]) (fptr_of [1, 1, 1]) 3 3 2 2 (0, 0, 0)
     = [(0, Fin (3 / 4)), (1, Fin (3 / 4))]"
  by (simp add: flashatt_kernel_def flashatt_qk_def Let_def trange_0_3_2 program_id_def arange_def
      expand_dims_1_def expand_dims_0_def load1_def fmax_axis1_def fsum_axis1_def fsub_def
      log2_e_def fptr_of_def store1_def upt_conv_Cons)

lemma flashatt_instance1:
  "flashatt_kernel (fptr_of [0, 0, 0]) (fptr_of [0, 0, 0]) (fptr_of [1, 1, 1]) 3 3 2 2 (1, 0, 0)
     = [(2, Fin (3 / 4))]"
  by (simp add: flashatt_kernel_def flashatt_qk_def Let_def trange_0_3_2 program_id_def arange_def
      expand_dims_1_def expand_dims_0_def load1_def fmax_axis1_def fsum_axis1_def fsub_def
      log2_e_def fptr_of_def store1_def upt_conv_Cons)

text \<open>Claim C2 fails on the code when \<open>B1\<close> does not divide \<open>T\<close>. For \<open>q = k = 0\<close>,
  \<open>v = 1\<close> of length 3, \<open>B0 = 2\<close> and \<open>B1 = 2\<close> the kernel stores \<open>3/4\<close> in every
  output, where \<open>flashatt_spec\<close> gives 1, and the two are not within the tolerance.\<close>

theorem flashatt_kernel_partial_chunk:
  "map (commit (launch (flashatt_kernel (fptr_of [0, 0, 0]) (fptr_of [0, 0, 0]) (fptr_of [1, 1, 1]) 3 3 2 2)
      (cdiv 3 2) 1 1) (fptr_of [0, 0, 0])) [0, 1, 2] = [Fin (3 / 4), Fin (3 / 4), Fin (3 / 4)]
   \<and> flashatt_spec [0, 0, 0] [0, 0, 0] [1, 1, 1] = [1, 1, 1]
   \<and> \<not> allclose (3 / 4) 1"
proof (intro conjI)
  have L: "launch body (cdiv 3 2) 1 1 = body (0, 0, 0) @ body (1, 0, 0)" for body :: "nat \<times> nat \<times> nat \<Rightarrow> fval writes"
    by (simp add: cdiv_def launch_def grid_def upt_conv_Cons)
  show "map (commit (launch (flashatt_kernel (fptr_of [0, 0, 0]) (fptr_of [0, 0, 0]) (fptr_of [1, 1, 1]) 3 3 2 2)
      (cdiv 3 2) 1 1) (fptr_of [0, 0, 0])) [0, 1, 2] = [Fin (3 / 4), Fin (3 / 4), Fin (3 / 4)]"
    unfolding L flashatt_instance0 flashatt_instance1 by simp
  show "flashatt_spec [0, 0, 0] [0, 0, 0] [1, 1, 1] = [1, 1, 1]"
    by (simp add: flashatt_spec_def softmax_row_def)
  show "\<not> allclose (3 / 4) 1"
    by (simp add: allclose_def atol_def rtol_def)
qed

text \<open>Claim C3 fails on the code: in the last chunk of that run (\<open>idx_j = 2, 3\<close> with
  \<open>T = 3\<close>) the masked-out position of the score tile holds 0, not \<open>-inf\<close>, and its
  exponential, which the running sum receives, is 1.\<close>

theorem flashatt_masked_score_is_zero:
  "flashatt_qk (fptr_of [0, 0, 0]) (fptr_of [0, 0, 0]) 3 3 2
      (\<lambda>a. 0 * 2 + arange 0 2 a) (\<lambda>b. 2 + arange 0 2 b) 0 1 = Fin 0
   \<and> fexp2 (fmul log2_e (fsub (flashatt_qk (fptr_of [0, 0, 0]) (fptr_of [0, 0, 0]) 3 3 2
      (\<lambda>a. 0 * 2 + arange 0 2 a) (\<lambda>b. 2 + arange 0 2 b) 0 1) (Fin 0))) = Fin 1"
  by (simp add: flashatt_qk_def Let_def arange_def expand_dims_1_def expand_dims_0_def load1_def
      fptr_of_def log2_e_def fsub_def)

section \<open>Puzzle 12: unpacking and dequantization\<close>


lemma sint_unpack: "sint (unpack w s) = drop_bit s (sint w) AND 15"
proof -
  have "sint (unpack w s) = sint (signed_drop_bit s w) AND sint (15 :: int32)"
    by (simp add: unpack_def BITS_def FPINT_def signed_and_eq)
  then show ?thesis by (simp add: sint_signed_drop_bit_eq)
qed

lemma sint_unpack_extract: "sint (unpack w (i * (32 div FPINT))) = extract_lane (sint w) i"
  by (simp add: sint_unpack extract_lane_def FPINT_def)

lemma extract_lane_range: "0 \<le> extract_lane x i \<and> extract_lane x i < 16"
proof -
  have "extract_lane x i = take_bit 4 (drop_bit (i * 4) x)"
    by (simp add: extract_lane_def take_bit_eq_mask mask_eq_exp_minus_1)
  then show ?thesis using take_bit_int_less_exp [of 4 "drop_bit (i * 4) x"] by simp
qed

lemma extract_lane_nibble:
  assumes "i < FPINT"
  shows "extract_lane (sint (w :: int32)) i = (uint w div 2 ^ (i * 4)) mod 16"
proof -
  have "extract_lane (sint w) i = take_bit 4 (drop_bit (i * 4) (sint w))"
    by (simp add: extract_lane_def take_bit_eq_mask mask_eq_exp_minus_1)
  also have "\<dots> = take_bit 4 (drop_bit (i * 4) (uint w))"
    using assms by (intro bit_eqI) (auto simp: bit_simps FPINT_def)
  finally show ?thesis by (simp add: take_bit_eq_mod drop_bit_eq_div)
qed

lemma sint_unpack_diff:
  "sint (unpack w s - unpack v t) = sint (unpack w s) - sint (unpack v t)"
proof -
  have a: "0 \<le> sint (unpack w s)" "sint (unpack w s) < 16" for w s
  proof -
    have "sint (unpack w s) = take_bit 4 (drop_bit s (sint w))"
      by (simp add: sint_unpack take_bit_eq_mask mask_eq_exp_minus_1)
    then show "0 \<le> sint (unpack w s)" "sint (unpack w s) < 16"
      using take_bit_int_less_exp [of 4 "drop_bit s (sint w)"] by simp_all
  qed
  have "sint (unpack w s - unpack v t) = signed_take_bit 31 (sint (unpack w s) - sint (unpack v t))"
    by (simp add: sint_word_ariths)
  also have "\<dots> = sint (unpack w s) - sint (unpack v t)"
    using a [of w s] a [of v t] by (intro signed_take_bit_int_eq_self) simp_all
  finally show ?thesis .
qed

lemma signed_unpack_diff:
  "(signed (unpack w s - unpack v t) :: real)
     = real_of_int ((drop_bit s (sint w) AND 15) - (drop_bit t (sint v) AND 15))"
proof -
  have "(signed (unpack w s - unpack v t) :: real) = real_of_int (sint (unpack w s - unpack v t))"
    by simp
  then show ?thesis by (simp only: sint_unpack_diff sint_unpack)
qed

lemma quant_dequant_tile_64:
  "\<exists>t. quant_dequant_tile scale_ptr offset_ptr weight_ptr N0 64 B0 64 idx_m 0 = Inr t
     \<and> (\<forall>a p. idx_m a < N0 \<longrightarrow> p < 64 \<longrightarrow>
           t a p = quant_dequant_spec scale_ptr offset_ptr weight_ptr (idx_m a) p)"
proof -
  have lane: "p < 64 \<Longrightarrow> p div 8 < 8" for p :: nat by simp
  show ?thesis
    unfolding quant_dequant_tile_def Let_def reshape_3_2_def reshape_2_1_def tl_arange_def
    by (simp add: FPINT_def GROUP_def arange_def expand_dims_1_def expand_dims_0_def load2_def
        quant_dequant_spec_def signed_unpack_diff extract_lane_def lane)
qed

text \<open>Claim C8: for every 32-bit packed word \<open>w\<close> and every lane \<open>i < FPINT\<close>, the
  kernel's unpacking \<open>(w >> (i * 4)) & 0xF\<close> yields the integer the reference's \<open>extract\<close>
  yields, namely the \<open>i\<close>-th group of four bits of the word (also of a negative one,
  which \<open>>>\<close> shifts arithmetically). So the unpack of weights and offsets is exact, and
  every element of the kernel's dequantized tile \<open>scale * (quant_weight - offset)\<close> is the
  element of the reference's dequantized matrix, the same product of the same scale and
  the same integer (for the contraction extent 64 of the reference, in one chunk).\<close>

theorem quant_unpack_exact:
  "(i < FPINT \<longrightarrow>
      sint (unpack w (i * (32 div FPINT))) = extract_lane (sint w) i
      \<and> extract_lane (sint w) i = (uint w div 2 ^ (i * 4)) mod 16)
   \<and> (idx_m a < N0 \<and> p < 64 \<longrightarrow>
      (\<exists>t. quant_dequant_tile scale_ptr offset_ptr weight_ptr N0 64 B0 64 idx_m 0 = Inr t
         \<and> t a p = quant_dequant_spec scale_ptr offset_ptr weight_ptr (idx_m a) p))"
  using quant_dequant_tile_64 [of scale_ptr offset_ptr weight_ptr N0 B0 idx_m]
  by (auto simp: sint_unpack_extract extract_lane_nibble)

text \<open>The theorem at lane 7 of the word \<open>-1\<close>, and at a row with scale 2, weight word 7
  and offset word 33, whose lanes 0 are 7 and 1.\<close>

theorem quant_unpack_exact_witness:
  "sint (unpack (- 1) (7 * (32 div FPINT))) = 15
   \<and> (\<exists>t. quant_dequant_tile (ptr_of [2]) (ptr_of [33]) (ptr_of [7]) 1 64 1 64 (arange 0 1) 0 = Inr t
         \<and> t 0 0 = 12)"
proof -
  have "extract_lane (sint (- 1 :: int32)) 7 = 15"
    by (simp add: extract_lane_def)
  moreover have "quant_dequant_spec (ptr_of [2]) (ptr_of [33]) (ptr_of [7]) (arange 0 1 0) 0 = 12"
    by (simp add: quant_dequant_spec_def extract_lane_def ptr_of_def arange_def GROUP_def)
  ultimately show ?thesis
    using quant_unpack_exact [of 7 "- 1" "arange 0 1" 0 1 0 "ptr_of [2]" "ptr_of [33]" "ptr_of [7]" 1]
    by (simp add: FPINT_def arange_def)
qed

section \<open>Puzzle 12: the static assertions\<close>

text \<open>For a positive block size the five assertions are the four divisibility
  preconditions (the fourth assertion follows from the second and the third).\<close>

lemma quant_dot_checks_iff:
  assumes "0 < B_MID"
  shows "quant_dot_checks MID B_MID =
     (if quant_dot_preconditions MID B_MID then Inr ()
      else Inl (StaticAssertError
        (if MID mod FPINT \<noteq> 0 then ''MID % FPINT != 0''
         else if B_MID mod FPINT \<noteq> 0 then ''B_MID % FPINT != 0''
         else if MID mod B_MID \<noteq> 0 then ''B_MID % FPINT != 0''
         else ''MID % GROUP != 0'')))"
proof -
  have fourth: "(MID div FPINT) mod (B_MID div FPINT) = 0"
    if "B_MID mod FPINT = 0" "MID mod B_MID = 0"
  proof -
    have "FPINT dvd B_MID" "B_MID dvd MID" using that by auto
    then have "B_MID div FPINT dvd MID div FPINT"
      by (meson div_dvd_div dvd_trans)
    then show ?thesis by auto
  qed
  have f: "FPINT \<noteq> 0" "GROUP \<noteq> 0" by (simp_all add: FPINT_def GROUP_def)
  show ?thesis
    using assms fourth f
    by (auto simp: quant_dot_checks_def quant_dot_preconditions_def static_assert_def np_mod_def)
qed

lemma fold_res_Inr:
  assumes "\<And>k s. \<exists>s'. f k s = Inr s'"
  shows "\<exists>s'. fold_res f ks s = Inr s'"
proof (induction ks arbitrary: s)
  case Nil
  then show ?case by simp
next
  case (Cons k ks)
  obtain s' where "f k s = Inr s'" using assms by blast
  then show ?case using Cons.IH [of s'] by simp
qed

lemma launch_res_runs:
  assumes "\<And>pid. \<exists>w. body pid = Inr w"
  shows "\<exists>ws. launch_res body g0 g1 g2 = Inr ws"
proof -
  obtain w where "\<And>pid. body pid = Inr (w pid)"
    using assms by metis
  then have "launch_res body g0 g1 g2 = Inr (launch w g0 g1 g2)"
    by (intro launch_res_Inr)
  then show ?thesis by blast
qed

lemma quant_dequant_tile_Inr:
  assumes "B_MID = FPINT * GROUP"
  shows "\<exists>t. quant_dequant_tile scale_ptr offset_ptr weight_ptr N0 MID B0 B_MID idx_m k = Inr t"
  using assms
  by (simp add: quant_dequant_tile_def Let_def reshape_3_2_def reshape_2_1_def tl_arange_def
      FPINT_def GROUP_def)

text \<open>An instance whose block sizes \<open>B0\<close> and \<open>B1\<close> pass \<open>tl.arange\<close> reaches the
  assertions, and fails at the first that does not hold, before its loop.\<close>

lemma quant_dot_kernel_rejects:
  assumes "is_pow2 B0" "is_pow2 B1" "0 < B_MID" "\<not> quant_dot_preconditions MID B_MID"
  shows "\<exists>msg. \<forall>pid. quant_dot_kernel scale_ptr offset_ptr weight_ptr activation_ptr
                      N0 N1 MID B0 B1 B_MID pid = Inl (StaticAssertError msg)"
  using assms(4)
  by (simp add: quant_dot_kernel_def Let_def quant_dot_checks_iff [OF assms(3)]
      tl_arange_0_pow2 [OF assms(1)] tl_arange_0_pow2 [OF assms(2)])

lemma quant_dot_kernel_runs:
  assumes "is_pow2 B0" "is_pow2 B1" "quant_dot_preconditions MID B_MID" "B_MID = FPINT * GROUP"
  shows "\<exists>ws. quant_dot_kernel scale_ptr offset_ptr weight_ptr activation_ptr
                      N0 N1 MID B0 B1 B_MID pid = Inr ws"
proof -
  have pos: "0 < B_MID" using assms(4) by (simp add: FPINT_def GROUP_def)
  let ?idx_m = "\<lambda>a. program_id pid 0 * B0 + arange 0 B0 a"
  let ?step = "\<lambda>k tile.
           bind_res (quant_dequant_tile scale_ptr offset_ptr weight_ptr N0 MID B0 B_MID ?idx_m k)
             (\<lambda>dequant_weight.
               (let idx_k = (\<lambda>b. k + arange 0 B_MID b);
                    idx_act = (\<lambda>a b. expand_dims_1 idx_k a b * N1
                       + expand_dims_0 (\<lambda>a. program_id pid 1 * B1 + arange 0 B1 a) a b);
                    msk_act = (\<lambda>a b. expand_dims_1 (\<lambda>a. idx_k a < MID) a b
                                \<and> expand_dims_0 (\<lambda>a. program_id pid 1 * B1 + arange 0 B1 a < N1) a b);
                    act = load2 activation_ptr idx_act msk_act 0
                in Inr (\<lambda>a b. tile a b + dot2 B_MID dequant_weight act a b)))"
  have "\<exists>s'. ?step k s = Inr s'" for k s
    using quant_dequant_tile_Inr [OF assms(4), of scale_ptr offset_ptr weight_ptr N0 MID B0 ?idx_m k]
    by (auto simp: Let_def)
  then obtain tile where "fold_res ?step (trange 0 MID B_MID) (\<lambda>a b. 0) = Inr tile"
    using fold_res_Inr [of ?step "trange 0 MID B_MID" "\<lambda>a b. 0"] by blast
  moreover have "quant_dot_checks MID B_MID = Inr ()"
    by (simp only: quant_dot_checks_iff [OF pos] assms(3) if_True)
  ultimately show ?thesis
    by (simp add: quant_dot_kernel_def Let_def tl_arange_0_pow2 [OF assms(1)]
        tl_arange_0_pow2 [OF assms(2)] tl_range_pos [OF pos])
qed

text \<open>Claim C7, as amended: for block sizes \<open>B0\<close> and \<open>B1\<close> that are powers of two and a
  positive block size \<open>B_MID\<close>, the kernel rejects every parameter combination that
  violates the divisibility preconditions as a static configuration error: every instance
  raises the static assertion error before its loop, so that a launch on a non-empty
  output fails as a whole with it and has no writes; a combination that satisfies the
  preconditions passes all five static assertions; and the launch then runs to
  completion when \<open>B_MID = FPINT * GROUP\<close>, the extent the kernel's \<open>reshape(B_MID)\<close> of
  the offset shifts is written for.\<close>

theorem quant_dot_static_checks:
  assumes "is_pow2 B0" "is_pow2 B1" "0 < B_MID"
  shows "(\<not> quant_dot_preconditions MID B_MID \<longrightarrow>
            (\<exists>msg. quant_dot_kernel scale_ptr offset_ptr weight_ptr activation_ptr
                      N0 N1 MID B0 B1 B_MID pid = Inl (StaticAssertError msg)))
       \<and> (\<not> quant_dot_preconditions MID B_MID \<and> 0 < N0 \<and> 0 < N1 \<longrightarrow>
            (\<exists>msg. launch_res (quant_dot_kernel scale_ptr offset_ptr weight_ptr activation_ptr
                      N0 N1 MID B0 B1 B_MID) (cdiv N0 B0) (cdiv N1 B1) 1 = Inl (StaticAssertError msg)))
       \<and> (quant_dot_preconditions MID B_MID \<longrightarrow> quant_dot_checks MID B_MID = Inr ())
       \<and> (quant_dot_preconditions MID B_MID \<and> B_MID = FPINT * GROUP \<longrightarrow>
            (\<exists>ws. launch_res (quant_dot_kernel scale_ptr offset_ptr weight_ptr activation_ptr
                      N0 N1 MID B0 B1 B_MID) (cdiv N0 B0) (cdiv N1 B1) 1 = Inr ws))"
proof (intro conjI impI)
  let ?body = "quant_dot_kernel scale_ptr offset_ptr weight_ptr activation_ptr N0 N1 MID B0 B1 B_MID"
  {
    assume v: "\<not> quant_dot_preconditions MID B_MID"
    from quant_dot_kernel_rejects [OF assms v]
    show "\<exists>msg. ?body pid = Inl (StaticAssertError msg)" by blast
  next
    assume v: "\<not> quant_dot_preconditions MID B_MID \<and> 0 < N0 \<and> 0 < N1"
    from quant_dot_kernel_rejects [OF assms conjunct1 [OF v]]
    obtain msg where "\<And>pid. ?body pid = Inl (StaticAssertError msg)" by blast
    then have "bind_res (?body pid') (\<lambda>w. Inr (ws @ w)) = Inl (StaticAssertError msg)" for pid' ws
      by simp
    moreover have "0 < cdiv N0 B0" "0 < cdiv N1 B1"
      using v is_pow2_pos [OF assms(1)] is_pow2_pos [OF assms(2)] by (simp_all add: cdiv_pos)
    then have "grid (cdiv N0 B0) (cdiv N1 B1) 1 \<noteq> []"
      by (intro grid_nonempty) simp_all
    ultimately have "launch_res ?body (cdiv N0 B0) (cdiv N1 B1) 1 = Inl (StaticAssertError msg)"
      unfolding launch_res_def by (intro fold_res_Inl)
    then show "\<exists>msg. launch_res ?body (cdiv N0 B0) (cdiv N1 B1) 1 = Inl (StaticAssertError msg)"
      by blast
  next
    assume "quant_dot_preconditions MID B_MID"
    then show "quant_dot_checks MID B_MID = Inr ()"
      by (simp add: quant_dot_checks_iff [OF assms(3)])
  next
    assume pre: "quant_dot_preconditions MID B_MID \<and> B_MID = FPINT * GROUP"
    show "\<exists>ws. launch_res ?body (cdiv N0 B0) (cdiv N1 B1) 1 = Inr ws"
      by (rule launch_res_runs)
        (rule quant_dot_kernel_runs [OF assms(1,2) conjunct1 [OF pre] conjunct2 [OF pre]])
  }
qed

text \<open>The theorem at the shapes of the test (\<open>MID = 64\<close>, \<open>B_MID = 64\<close>, \<open>B0 = B1 = 16\<close>),
  and at \<open>MID = 60\<close>, which \<open>B_MID = 64\<close> does not divide.\<close>

theorem quant_dot_static_checks_witness:
  "(\<exists>msg. quant_dot_kernel (ptr_of []) (ptr_of []) (ptr_of []) (ptr_of []) 32 32 60 16 16 64 (0, 0, 0)
        = Inl (StaticAssertError msg))
   \<and> (\<exists>msg. launch_res (quant_dot_kernel (ptr_of []) (ptr_of []) (ptr_of []) (ptr_of []) 32 32 60 16 16 64)
        (cdiv 32 16) (cdiv 32 16) 1 = Inl (StaticAssertError msg))
   \<and> quant_dot_checks 64 64 = Inr ()
   \<and> (\<exists>ws. launch_res (quant_dot_kernel (ptr_of []) (ptr_of []) (ptr_of []) (ptr_of []) 32 32 64 16 16 64)
        (cdiv 32 16) (cdiv 32 16) 1 = Inr ws)"
proof -
  have p16: "is_pow2 16" by (simp add: is_pow2_def)
  show ?thesis
    using quant_dot_static_checks [OF p16 p16, of 64 60 "ptr_of []" "ptr_of []" "ptr_of []" "ptr_of []" 32 32 "(0, 0, 0)"]
      quant_dot_static_checks [OF p16 p16, of 64 64 "ptr_of []" "ptr_of []" "ptr_of []" "ptr_of []" 32 32 "(0, 0, 0)"]
    by (simp add: quant_dot_preconditions_def FPINT_def GROUP_def)
qed

text \<open>Claim C7 as stated fails, and each restriction of the amended claim is needed.
  \<^item> \<open>MID = 8\<close> and \<open>B_MID = 8\<close> satisfy every divisibility precondition, and the kernel
    does not run: the tile of offset shifts has \<open>FPINT * GROUP = 64\<close> elements, and its
    \<open>reshape(B_MID)\<close> raises.
  \<^item> \<open>MID = 64\<close> is not divisible by \<open>B_MID = 0\<close>, and no static assertion rejects the
    pair: the remainders by zero are 0, all five assertions pass, and the loop's
    \<open>range\<close> raises for its zero step.
  \<^item> \<open>MID = 60\<close> is not divisible by \<open>B_MID = 64\<close>, and with \<open>B0 = 3\<close> the instance does
    not reach the assertions: \<open>tl.arange(0, B0)\<close>, which precedes them, raises.
  \<^item> With the same \<open>MID\<close> and \<open>B_MID\<close> and an empty output (\<open>N0 = 0\<close>) the grid has no
    instance, and the launch returns with nothing rejected.\<close>

theorem quant_dot_checks_counterexample:
  "quant_dot_preconditions 8 8
   \<and> quant_dot_kernel (ptr_of []) (ptr_of []) (ptr_of []) (ptr_of []) 1 1 8 1 1 8 (0, 0, 0)
       = Inl (ValueError ''reshape() cannot change total number of elements in tensor'')
   \<and> \<not> quant_dot_preconditions 64 0
   \<and> quant_dot_checks 64 0 = Inr ()
   \<and> quant_dot_kernel (ptr_of []) (ptr_of []) (ptr_of []) (ptr_of []) 32 32 64 16 16 0 (0, 0, 0)
       = Inl (ValueError ''range() arg 3 must not be zero'')
   \<and> \<not> quant_dot_preconditions 60 64
   \<and> quant_dot_kernel (ptr_of []) (ptr_of []) (ptr_of []) (ptr_of []) 32 32 60 3 16 64 (0, 0, 0)
       = Inl (ValueError ''arange's range must be a power of 2'')
   \<and> launch_res (quant_dot_kernel (ptr_of []) (ptr_of []) (ptr_of []) (ptr_of []) 0 32 60 16 16 64)
        (cdiv 0 16) (cdiv 32 16) 1 = Inr []"
proof -
  have t: "trange 0 8 8 = [0]"
    by (simp add: trange_def cdiv_def)
  have a: "quant_dot_kernel (ptr_of []) (ptr_of []) (ptr_of []) (ptr_of []) 1 1 8 1 1 8 (0, 0, 0)
       = Inl (ValueError ''reshape() cannot change total number of elements in tensor'')"
    using t
    by (simp add: quant_dot_kernel_def Let_def quant_dot_checks_iff quant_dot_preconditions_def
        tl_arange_def tl_range_def quant_dequant_tile_def reshape_3_2_def reshape_2_1_def
        FPINT_def GROUP_def)
  have c0: "quant_dot_checks 64 0 = Inr ()"
    by (simp add: quant_dot_checks_def static_assert_def np_mod_def FPINT_def GROUP_def)
  have b: "quant_dot_kernel (ptr_of []) (ptr_of []) (ptr_of []) (ptr_of []) 32 32 64 16 16 0 (0, 0, 0)
       = Inl (ValueError ''range() arg 3 must not be zero'')"
    by (simp add: quant_dot_kernel_def Let_def c0 tl_arange_def tl_range_def)
  have c: "quant_dot_kernel (ptr_of []) (ptr_of []) (ptr_of []) (ptr_of []) 32 32 60 3 16 64 (0, 0, 0)
       = Inl (ValueError ''arange's range must be a power of 2'')"
    by (simp add: quant_dot_kernel_def Let_def tl_arange_def)
  have d: "launch_res (quant_dot_kernel (ptr_of []) (ptr_of []) (ptr_of []) (ptr_of []) 0 32 60 16 16 64)
        (cdiv 0 16) (cdiv 32 16) 1 = Inr []"
    by (simp add: launch_res_def grid_def cdiv_def)
  show ?thesis
    using a b c d c0 by (simp add: quant_dot_preconditions_def FPINT_def GROUP_def)
qed

end
